theory Spec2Isabelle
  imports Complex_Main
begin

unbundle bit_operations_syntax

section \<open>Python values used by \<^verbatim>\<open>main.py\<close>\<close>

text \<open>
  The exceptions the arithmetic of \<^verbatim>\<open>main.py\<close> can raise. Library calls of
  \<^verbatim>\<open>tellusimd\<close> report failure through their boolean result, which the source tests.
\<close>

datatype py_error = ZeroDivisionError | OverflowError

subsection \<open>Floating point\<close>

text \<open>
  A Python \<^verbatim>\<open>float\<close> is an IEEE 754 binary64 number. A finite float is modelled by the
  real number it denotes. \<open>fl\<close> rounds a real to the nearest number with a 53 bit
  significand, ties to the even significand (the IEEE default rounding), with the
  fixed spacing \<open>2 powi (- 1074)\<close> below the normal range. Overflow is tested where the
  source can raise on it (\<open>true_div\<close>).
\<close>

definition rne :: "real \<Rightarrow> int" where
  "rne x = (let f = \<lfloor>x\<rfloor>; d = x - of_int f in
     if d < 1 / 2 then f else if 1 / 2 < d then f + 1
     else if even f then f else f + 1)"

definition ulp_exp :: "real \<Rightarrow> int" where
  "ulp_exp x = max \<lfloor>log 2 \<bar>x\<bar>\<rfloor> (- 1022) - 52"

definition fl :: "real \<Rightarrow> real" where
  "fl x = (if x = 0 then 0
     else sgn x * of_int (rne (\<bar>x\<bar> / 2 powi ulp_exp x)) * 2 powi ulp_exp x)"

text \<open>
  \<^verbatim>\<open>a / b\<close> on two Python ints: the correctly rounded quotient,
  \<^verbatim>\<open>ZeroDivisionError\<close> for a zero divisor, \<^verbatim>\<open>OverflowError\<close> when the rounded
  quotient is beyond the largest float.
\<close>

definition true_div :: "int \<Rightarrow> int \<Rightarrow> py_error + real" where
  "true_div a b = (if b = 0 then Inl ZeroDivisionError
     else let r = fl (of_int a / of_int b)
          in if 2 ^ 1024 \<le> \<bar>r\<bar> then Inl OverflowError else Inr r)"


section \<open>The frame callback \<^verbatim>\<open>main_loop\<close>\<close>

text \<open>
  What one call of \<^verbatim>\<open>main_loop\<close> observes from its collaborators: the result of every
  call whose value the source tests or computes with. The window size is read after
  \<^verbatim>\<open>Window.update()\<close> and is the same at every read within the frame.
  \<open>texture_due\<close> is the outcome of the test
  \<^verbatim>\<open>Time.seconds() - texture_time > texture_ifps\<close>; \<open>root_update k\<close> is the result of the
  call number \<open>k\<close> of \<^verbatim>\<open>root.update\<close> in the frame; \<open>created_size\<close> is the size
  \<^verbatim>\<open>render_frame\<close> reports after a call of its \<^verbatim>\<open>create\<close>, whatever the call returned.
\<close>

record env =
  window_render :: bool
  window_width :: nat
  window_height :: nat
  frame_create_ok :: bool
  created_size :: "nat \<times> nat"
  texture_due :: bool
  scene_create_ok :: bool
  manager_update_ok :: bool
  app_height :: nat
  mouse_x :: int
  mouse_y :: int
  button_left :: bool
  button_left2 :: bool
  root_update :: "nat \<Rightarrow> bool"
  target_begin :: bool
  window_present :: bool
  device_check :: bool

text \<open>
  The state that outlives a frame: the \<^verbatim>\<open>nonlocal\<close> counter \<^verbatim>\<open>texture_frame\<close>
  (\<^verbatim>\<open>texture_time\<close> advances with it by the constant \<^verbatim>\<open>texture_ifps\<close>) and the size
  \<^verbatim>\<open>render_frame\<close> reports through \<^verbatim>\<open>getWidth()\<close> and \<^verbatim>\<open>getHeight()\<close>.
\<close>

record frame_state =
  texture_frame :: int
  frame_width :: nat
  frame_height :: nat

text \<open>The calls of a frame that act on a collaborator, in the order they are made.\<close>

datatype event =
    WindowUpdate
  | WindowRender bool
  | RenderManagerUpdate
  | FrameCreate nat nat bool
  | LogFrameResized nat nat
  | CreateImage int int
  | MaterialSetTexture
  | MaterialUpdateScene
  | NodeSetGlobalTransform
  | NodeUpdateScene
  | GraphUpdateSpatial
  | GraphUpdateScene
  | SceneCreate bool
  | SceneSetTime
  | SceneUpdate
  | SceneManagerUpdate bool
  | CreateCompute
  | SceneManagerDispatch
  | SceneDispatch
  | SpatialDispatchFrames
  | SpatialDispatchObjects
  | RendererDispatchFrames
  | ReleaseCompute
  | SceneManagerFlush
  | RenderManagerFlush
  | RenderFrameFlush
  | DrawDeferred
  | DispatchLight
  | DispatchOccluder
  | DispatchLuminance
  | DispatchComposite
  | RectSetTexture
  | RectSetTextureScale real real
  | RectSetTextureFlip
  | RootSetViewport int nat
  | RootSetMouse real real bool
  | CanvasGetScale
  | RootUpdate bool
  | CanvasCreate
  | TargetBegin bool
  | CreateCommand
  | SetPipeline
  | SetUniform
  | SetVertices
  | SetIndices
  | DrawElements nat
  | CanvasDraw
  | ReleaseCommand
  | TargetEnd
  | WindowPresent bool
  | DeviceCheck bool

text \<open>
  How a call of \<^verbatim>\<open>main_loop\<close> ends: it returns a boolean to \<^verbatim>\<open>window.run\<close>, an
  exception leaves it, or it stays in \<^verbatim>\<open>while root.update(...): pass\<close> for ever.
\<close>

datatype outcome = Return bool | Raise py_error | Hang

text \<open>
  The blocks of \<^verbatim>\<open>main_loop\<close>, as its comments divide it: update and render window, update
  scene, dispatch (first), draw, dispatch (second), update interface, window target,
  present window, check device. Every call in a trace carries the block it was made in.
\<close>

datatype phase =
    PhasePoll
  | PhaseSceneUpdate
  | PhaseEarlyDispatch
  | PhaseDeferredDraw
  | PhaseLateDispatch
  | PhaseUIUpdate
  | PhaseWindowTarget
  | PhasePresent
  | PhaseCheck

definition tag :: "phase \<Rightarrow> event list \<Rightarrow> (phase \<times> event) list" where
  "tag p t = map (Pair p) t"

subsection \<open>Update scene\<close>

definition resize_frame :: "env \<Rightarrow> frame_state \<Rightarrow> bool \<times> frame_state \<times> event list" where
  "resize_frame e st =
    (if frame_width st \<noteq> window_width e \<or> frame_height st \<noteq> window_height e then
       if \<not> frame_create_ok e then
         (False,
          st\<lparr>frame_width := fst (created_size e), frame_height := snd (created_size e)\<rparr>,
          [FrameCreate (window_width e) (window_height e) False])
       else
         (True,
          st\<lparr>frame_width := fst (created_size e), frame_height := snd (created_size e)\<rparr>,
          [FrameCreate (window_width e) (window_height e) True,
           LogFrameResized (window_width e) (window_height e)])
     else (True, st, []))"

definition update_texture :: "env \<Rightarrow> frame_state \<Rightarrow> frame_state \<times> event list" where
  "update_texture e st =
    (if texture_due e then
       (st\<lparr>texture_frame := texture_frame st + 1\<rparr>,
        [CreateImage 128 (texture_frame st), MaterialSetTexture, MaterialUpdateScene])
     else (st, []))"

definition update_graph :: "event list" where
  "update_graph = [NodeSetGlobalTransform, NodeUpdateScene, GraphUpdateSpatial, GraphUpdateScene]"

definition update_scene :: "env \<Rightarrow> frame_state \<Rightarrow> bool \<times> frame_state \<times> event list" where
  "update_scene e st =
    (case resize_frame e st of
       (False, st1, t1) \<Rightarrow> (False, st1, RenderManagerUpdate # t1)
     | (True, st1, t1) \<Rightarrow>
        (case update_texture e st1 of (st2, t2) \<Rightarrow>
           if \<not> scene_create_ok e then
             (False, st2, RenderManagerUpdate # t1 @ t2 @ update_graph @ [SceneCreate False])
           else if \<not> manager_update_ok e then
             (False, st2, RenderManagerUpdate # t1 @ t2 @ update_graph @
                [SceneCreate True, SceneSetTime, SceneUpdate, SceneManagerUpdate False])
           else
             (True, st2, RenderManagerUpdate # t1 @ t2 @ update_graph @
                [SceneCreate True, SceneSetTime, SceneUpdate, SceneManagerUpdate True])))"

subsection \<open>Dispatch and draw\<close>

definition dispatch_early :: "event list" where
  "dispatch_early =
    [CreateCompute, SceneManagerDispatch, SceneDispatch, SpatialDispatchFrames,
     SpatialDispatchObjects, RendererDispatchFrames, ReleaseCompute]"

definition draw_deferred :: "event list" where
  "draw_deferred = [SceneManagerFlush, RenderManagerFlush, RenderFrameFlush, DrawDeferred]"

definition dispatch_late :: "event list" where
  "dispatch_late =
    [CreateCompute, DispatchLight, DispatchOccluder, DispatchLuminance, DispatchComposite,
     ReleaseCompute]"

subsection \<open>Update interface\<close>

text \<open>
  \<^verbatim>\<open>width = math.floor(height * window.getWidth() / window.getHeight())\<close>: the product of
  two ints, divided by an int into a float, then floored to an int.
\<close>

definition derived_width :: "nat \<Rightarrow> nat \<Rightarrow> nat \<Rightarrow> py_error + int" where
  "derived_width height ww wh =
    (case true_div (int height * int ww) (int wh) of
       Inl err \<Rightarrow> Inl err
     | Inr q \<Rightarrow> Inr \<lfloor>q\<rfloor>)"

text \<open>
  \<^verbatim>\<open>while root.update(canvas.getScale(target)): pass\<close>, from call number \<open>k\<close> on: the
  number of calls that returned true when the loop ends.
\<close>

partial_function (option) root_update_loop :: "(nat \<Rightarrow> bool) \<Rightarrow> nat \<Rightarrow> nat option" where
  "root_update_loop upd k = (if upd k then root_update_loop upd (Suc k) else Some k)"

definition root_update_events :: "nat \<Rightarrow> event list" where
  "root_update_events n =
    concat (replicate n [CanvasGetScale, RootUpdate True]) @ [CanvasGetScale, RootUpdate False]"

definition update_interface :: "env \<Rightarrow> outcome option \<times> event list" where
  "update_interface e =
    (let height = app_height e in
     case derived_width height (window_width e) (window_height e) of
       Inl err \<Rightarrow> (Some (Raise err), [])
     | Inr width \<Rightarrow>
    (case true_div (width * mouse_x e) (int (window_width e)) of
       Inl err \<Rightarrow> (Some (Raise err), [])
     | Inr mx \<Rightarrow>
    (case true_div (int height * mouse_y e) (int (window_height e)) of
       Inl err \<Rightarrow> (Some (Raise err), [])
     | Inr my \<Rightarrow>
    (let buttons = (button_left e \<or> button_left2 e) in
     case true_div width (int (window_width e)) of
       Inl err \<Rightarrow> (Some (Raise err), [RectSetTexture])
     | Inr sx \<Rightarrow>
    (case true_div (int height) (int (window_height e)) of
       Inl err \<Rightarrow> (Some (Raise err), [RectSetTexture])
     | Inr sy \<Rightarrow>
    (let pre = [RectSetTexture, RectSetTextureScale sx sy, RectSetTextureFlip,
                RootSetViewport width height, RootSetMouse mx my buttons] in
     case root_update_loop (root_update e) 0 of
       None \<Rightarrow> (Some Hang, pre)
     | Some n \<Rightarrow> (None, pre @ root_update_events n @ [CanvasCreate])))))))"

subsection \<open>Window target, present, check\<close>

definition window_target :: "env \<Rightarrow> event list" where
  "window_target e =
    (if target_begin e then
       [TargetBegin True, CreateCommand, SetPipeline, SetUniform, SetVertices, SetIndices,
        DrawElements 3, CanvasDraw, ReleaseCommand, TargetEnd]
     else [TargetBegin False])"

definition present_check :: "env \<Rightarrow> bool \<times> (phase \<times> event) list" where
  "present_check e =
    (if \<not> window_present e then (False, [(PhasePresent, WindowPresent False)])
     else if \<not> device_check e then
       (False, [(PhasePresent, WindowPresent True), (PhaseCheck, DeviceCheck False)])
     else (True, [(PhasePresent, WindowPresent True), (PhaseCheck, DeviceCheck True)]))"

subsection \<open>The whole callback\<close>

definition main_loop ::
  "env \<Rightarrow> frame_state \<Rightarrow> outcome \<times> frame_state \<times> (phase \<times> event) list" where
  "main_loop e st =
    (if \<not> window_render e then
       (Return False, st, tag PhasePoll [WindowUpdate, WindowRender False])
     else
       case update_scene e st of
         (False, st1, t1) \<Rightarrow>
           (Return False, st1,
            tag PhasePoll [WindowUpdate, WindowRender True] @ tag PhaseSceneUpdate t1)
       | (True, st1, t1) \<Rightarrow>
          (let t = tag PhasePoll [WindowUpdate, WindowRender True] @ tag PhaseSceneUpdate t1 @
                   tag PhaseEarlyDispatch dispatch_early @ tag PhaseDeferredDraw draw_deferred @
                   tag PhaseLateDispatch dispatch_late
           in case update_interface e of
                (Some out, t2) \<Rightarrow> (out, st1, t @ tag PhaseUIUpdate t2)
              | (None, t2) \<Rightarrow>
                 (case present_check e of
                    (ok, t3) \<Rightarrow>
                      (Return ok, st1,
                       t @ tag PhaseUIUpdate t2 @ tag PhaseWindowTarget (window_target e) @ t3))))"

text \<open>What the theorems read off a call of \<^verbatim>\<open>main_loop\<close>.\<close>

definition frame_outcome :: "outcome \<times> frame_state \<times> (phase \<times> event) list \<Rightarrow> outcome" where
  "frame_outcome r = fst r"

definition frame_after :: "outcome \<times> frame_state \<times> (phase \<times> event) list \<Rightarrow> frame_state" where
  "frame_after r = fst (snd r)"

definition frame_trace ::
  "outcome \<times> frame_state \<times> (phase \<times> event) list \<Rightarrow> (phase \<times> event) list" where
  "frame_trace r = snd (snd r)"

definition phase_events :: "phase \<Rightarrow> (phase \<times> event) list \<Rightarrow> event list" where
  "phase_events p t = map snd (filter (\<lambda>x. fst x = p) t)"

definition phases :: "(phase \<times> event) list \<Rightarrow> phase list" where
  "phases t = remdups_adj (map fst t)"

definition resize_needed :: "env \<Rightarrow> frame_state \<Rightarrow> bool" where
  "resize_needed e st =
    (frame_width st \<noteq> window_width e \<or> frame_height st \<noteq> window_height e)"

text \<open>One of the four tested calls before the dispatch blocks reports failure.\<close>

definition early_failure :: "env \<Rightarrow> frame_state \<Rightarrow> bool" where
  "early_failure e st =
    (\<not> window_render e \<or> (resize_needed e st \<and> \<not> frame_create_ok e) \<or>
     \<not> scene_create_ok e \<or> \<not> manager_update_ok e)"

definition interface_done :: "env \<Rightarrow> bool" where
  "interface_done e = (fst (update_interface e) = None)"

definition is_frame_create :: "event \<Rightarrow> bool" where
  "is_frame_create ev = (case ev of FrameCreate w h ok \<Rightarrow> True | _ \<Rightarrow> False)"

definition is_frame_log :: "event \<Rightarrow> bool" where
  "is_frame_log ev = (case ev of LogFrameResized w h \<Rightarrow> True | _ \<Rightarrow> False)"

definition is_present :: "event \<Rightarrow> bool" where
  "is_present ev = (case ev of WindowPresent ok \<Rightarrow> True | _ \<Rightarrow> False)"

text \<open>The calls the interface block can make.\<close>

definition interface_event :: "event \<Rightarrow> bool" where
  "interface_event ev =
    (case ev of
       RectSetTexture \<Rightarrow> True
     | RectSetTextureScale sx sy \<Rightarrow> True
     | RectSetTextureFlip \<Rightarrow> True
     | RootSetViewport w h \<Rightarrow> True
     | RootSetMouse mx my b \<Rightarrow> True
     | CanvasGetScale \<Rightarrow> True
     | RootUpdate b \<Rightarrow> True
     | CanvasCreate \<Rightarrow> True
     | _ \<Rightarrow> False)"

text \<open>
  A frame of a 1920 by 1080 window in which every call succeeds, and the state before
  the first frame (no frame target yet).
\<close>

definition frame_ok :: env where
  "frame_ok =
    \<lparr>window_render = True, window_width = 1920, window_height = 1080,
     frame_create_ok = True, created_size = (1920, 1080), texture_due = True,
     scene_create_ok = True, manager_update_ok = True, app_height = 1080,
     mouse_x = 0, mouse_y = 0, button_left = False, button_left2 = False,
     root_update = (\<lambda>k. False), target_begin = True, window_present = True,
     device_check = True\<rparr>"

definition frame0 :: frame_state where
  "frame0 = \<lparr>texture_frame = 0, frame_width = 0, frame_height = 0\<rparr>"

subsection \<open>The loop that calls the callback\<close>


section \<open>The streaming worker \<^verbatim>\<open>process_callback\<close>\<close>

text \<open>
  What iteration \<open>i\<close> of the worker loop observes: the truth value of the
  \<^verbatim>\<open>scene_manager\<close> handle, the result of \<^verbatim>\<open>isTerminated()\<close> and the result of
  \<^verbatim>\<open>process(process_async)\<close>. The guard \<^verbatim>\<open>scene_manager and not ...\<close> is evaluated left
  to right and stops at a false handle.
\<close>

record worker_obs =
  manager_valid :: bool
  is_terminated :: bool
  process_ok :: bool

datatype worker_event =
    ManagerBool bool
  | IsTerminated bool
  | Process bool
  | Sleep nat
  | LogThreadDone

definition worker_exits :: "worker_obs \<Rightarrow> bool" where
  "worker_exits ob = (\<not> manager_valid ob \<or> is_terminated ob)"

definition worker_guard :: "worker_obs \<Rightarrow> worker_event list" where
  "worker_guard ob =
    (if \<not> manager_valid ob then [ManagerBool False]
     else [ManagerBool True, IsTerminated (is_terminated ob)])"

definition worker_iteration :: "worker_obs \<Rightarrow> worker_event list" where
  "worker_iteration ob =
    worker_guard ob @
    (if \<not> process_ok ob then [Process False, Sleep 1000] else [Process True])"

partial_function (option) process_loop ::
  "(nat \<Rightarrow> worker_obs) \<Rightarrow> nat \<Rightarrow> worker_event list \<Rightarrow> worker_event list option" where
  "process_loop obs i acc =
    (if manager_valid (obs i) \<and> \<not> is_terminated (obs i)
     then process_loop obs (Suc i) (acc @ worker_iteration (obs i))
     else Some (acc @ worker_guard (obs i)))"

definition process_callback :: "(nat \<Rightarrow> worker_obs) \<Rightarrow> worker_event list option" where
  "process_callback obs =
    (case process_loop obs 0 [] of
       None \<Rightarrow> None
     | Some t \<Rightarrow> Some (t @ [LogThreadDone]))"

section \<open>The end of \<^verbatim>\<open>main\<close>\<close>

text \<open>
  The statements of \<^verbatim>\<open>main\<close> after \<^verbatim>\<open>window.run(main_loop)\<close> has returned. The result of
  the last \<^verbatim>\<open>scene_manager.update\<close> is not tested; \<^verbatim>\<open>main\<close> returns 0.
\<close>

datatype main_event =
    Terminate
  | WindowFinish
  | SceneClear
  | ManagerUpdate bool
  | ThreadJoin
  | LogDone

definition shutdown :: "bool \<Rightarrow> int \<times> main_event list" where
  "shutdown update_result =
    (0, [Terminate, WindowFinish, SceneClear, ManagerUpdate update_result, WindowFinish,
         ThreadJoin, LogDone])"

section \<open>\<^verbatim>\<open>create_mesh\<close>\<close>

text \<open>
  The mesh as far as the integer arithmetic of \<^verbatim>\<open>create_mesh\<close> decides it: the sizes given
  to the constructors of the attributes and of the index buffer, the index format, and the
  calls of \<^verbatim>\<open>set\<close> in the order they are made. The four vertex attributes are set together,
  slot by slot; their values are vectors of 32 bit floats that the library computes from
  the grid point \<open>(i, j)\<close>, and a call is recorded as the slot and that grid point. A call
  \<^verbatim>\<open>indices.set(index, a, b, c, d)\<close> is recorded with its five arguments. \<open>Maxu16\<close> is a
  constant of \<^verbatim>\<open>tellusimd\<close> and is a parameter here.
  \<^verbatim>\<open>aspect = radius.x / radius.y\<close> divides two Python floats and raises on a zero divisor.
\<close>

datatype index_format = FormatRu16 | FormatRu32

record mesh =
  num_vertices :: nat
  vertex_sets :: "(nat \<times> nat \<times> nat) list"
  indices_format :: index_format
  num_indices :: nat
  index_sets :: "(nat \<times> nat \<times> nat \<times> nat \<times> nat) list"

definition set_vertex ::
  "(nat \<times> nat \<times> nat) list \<times> nat \<Rightarrow> nat \<times> nat \<Rightarrow> (nat \<times> nat \<times> nat) list \<times> nat" where
  "set_vertex s p =
    (case s of (calls, vertex) \<Rightarrow> case p of (j, i) \<Rightarrow> (calls @ [(vertex, i, j)], vertex + 1))"

definition set_quad ::
  "nat \<Rightarrow> (nat \<times> nat \<times> nat \<times> nat \<times> nat) list \<times> nat \<Rightarrow> nat \<times> nat \<Rightarrow>
   (nat \<times> nat \<times> nat \<times> nat \<times> nat) list \<times> nat" where
  "set_quad sx s p =
    (case s of (calls, index) \<Rightarrow> case p of (j, i) \<Rightarrow>
       (let vertex = (sx + 1) * j + i in
        (calls @ [(index, vertex, vertex + 1, vertex + sx + 2, vertex + sx + 1)], index + 4)))"

definition create_mesh :: "int \<Rightarrow> nat \<times> nat \<Rightarrow> real \<times> real \<Rightarrow> real \<Rightarrow> py_error + mesh" where
  "create_mesh Maxu16 steps radius texcoord =
    (case steps of (sx, sy) \<Rightarrow>
       let n = (sx + 1) * (sy + 1) in
       if snd radius = 0 then Inl ZeroDivisionError
       else
         let vs = fst (foldl set_vertex ([], 0) (List.product [0..<sy + 1] [0..<sx + 1]));
             ni = sx * sy * 4;
             fmt = (if int n < Maxu16 then FormatRu16 else FormatRu32);
             qs = fst (foldl (set_quad sx) ([], 0) (List.product [0..<sy] [0..<sx]))
         in Inr \<lparr>num_vertices = n, vertex_sets = vs, indices_format = fmt,
                 num_indices = ni, index_sets = qs\<rparr>)"

section \<open>\<^verbatim>\<open>create_image\<close>\<close>











section \<open>Rounding\<close>

text \<open>
  Rounding to nearest keeps the order with respect to the integers, and a rounded value
  never passes a number that is itself a float.
\<close>

lemma rne_le_int: "x \<le> of_int n \<Longrightarrow> rne x \<le> n"
  unfolding rne_def Let_def by (auto; linarith)

lemma rne_ge_int: "of_int n \<le> x \<Longrightarrow> n \<le> rne x"
  unfolding rne_def Let_def by (auto; linarith)

lemma rne_lt_int: "x < of_int n - 1 / 2 \<Longrightarrow> rne x < n"
  unfolding rne_def Let_def by (auto; linarith)

lemma rne_of_int: "rne (of_int n) = n"
  unfolding rne_def Let_def by auto

lemma fl_minus: "fl (- x) = - fl x"
  unfolding fl_def ulp_exp_def by (auto simp: sgn_if)

lemma fl_nonneg: "0 \<le> x \<Longrightarrow> 0 \<le> fl x"
  unfolding fl_def by (auto simp: sgn_if intro!: mult_nonneg_nonneg rne_ge_int[of 0, simplified])

lemma ulp_exp_mono: "0 < x \<Longrightarrow> x \<le> y \<Longrightarrow> ulp_exp x \<le> ulp_exp y"
  unfolding ulp_exp_def by (auto intro!: floor_mono simp: max_def) (smt (verit) floor_mono log_le_cancel_iff)+

lemma fl_pos_eq: "0 < x \<Longrightarrow> fl x = of_int (rne (x / 2 powi ulp_exp x)) * 2 powi ulp_exp x"
  unfolding fl_def by (simp add: sgn_if)

lemma powi_split: "i \<le> j \<Longrightarrow> (2::real) powi j = 2 ^ nat (j - i) * 2 powi i"
proof -
  assume "i \<le> j"
  then have "j = int (nat (j - i)) + i" by simp
  then have "(2::real) powi j = 2 powi (int (nat (j - i)) + i)" by simp
  also have "\<dots> = 2 powi int (nat (j - i)) * 2 powi i"
    by (rule power_int_add) simp
  also have "(2::real) powi int (nat (j - i)) = 2 ^ nat (j - i)"
    by (rule power_int_of_nat)
  finally show ?thesis .
qed

lemma fl_le_representable:
  assumes x: "0 < x" and xR: "x \<le> R" and rep: "R = of_int m * 2 powi ulp_exp R"
  shows "fl x \<le> R"
proof -
  define u :: real where "u = 2 powi ulp_exp x"
  define k where "k = nat (ulp_exp R - ulp_exp x)"
  have upos: "0 < u" by (simp add: u_def)
  have "ulp_exp x \<le> ulp_exp R" using x xR by (rule ulp_exp_mono)
  then have "(2::real) powi ulp_exp R = 2 ^ k * u"
    unfolding u_def k_def by (rule powi_split)
  with rep have R: "R = of_int (m * 2 ^ k) * u" by simp
  have "x / u \<le> of_int (m * 2 ^ k)"
    using xR R upos by (simp add: divide_le_eq)
  then have "rne (x / u) \<le> m * 2 ^ k" by (rule rne_le_int)
  then have "of_int (rne (x / u)) * u \<le> of_int (m * 2 ^ k) * u"
    using upos by (simp only: mult_le_cancel_right_pos of_int_le_iff)
  then show ?thesis using R x by (simp add: fl_pos_eq u_def)
qed

lemma ulp_exp_eq:
  assumes "0 < x" "2 powi e \<le> x" "x < 2 powi (e + 1)" "- 1022 \<le> e"
  shows "ulp_exp x = e - 52"
proof -
  have p1: "2 powr real_of_int e = 2 powi e" by (rule powr_real_of_int') simp_all
  have p2: "2 powr real_of_int (e + 1) = 2 powi (e + 1)" by (rule powr_real_of_int') simp_all
  have "2 powr real_of_int e \<le> x \<and> x < 2 powr real_of_int (e + 1)"
    unfolding p1 p2 using assms by blast
  then have "\<lfloor>log 2 x\<rfloor> = e"
    using floor_log_eq_powr_iff[of x 2 e] assms(1) by simp
  then show ?thesis using assms by (simp add: ulp_exp_def)
qed

lemma half_powi: "(1 / 2 :: real) = 2 powi (- 1)"
  by (simp add: power_int_minus)

lemma fl_le_half: 
  assumes "0 < x" "x \<le> 1 / 2" shows "fl x \<le> 1 / 2"
proof -
  have e: "ulp_exp (1 / 2) = - 1 - 52"
    by (rule ulp_exp_eq) (simp_all add: power_int_minus)
  have "(2::real) powi (- 53) = 1 / 2 ^ 53"
    using power_int_minus_divide[of "2::real" 53] by simp
  then have "1 / 2 = real_of_int (2 ^ 52) * 2 powi ulp_exp (1 / 2)"
    unfolding e by simp
  with assms show ?thesis by (rule fl_le_representable)
qed

lemma ulp_exp_bounds:
  assumes "0 < x"
  shows "2 powi \<lfloor>log 2 x\<rfloor> \<le> x \<and> x < 2 powi (\<lfloor>log 2 x\<rfloor> + 1)"
proof -
  obtain e where e: "\<lfloor>log 2 x\<rfloor> = e" by simp
  have p1: "2 powr real_of_int e = 2 powi e" by (rule powr_real_of_int') simp_all
  have p2: "2 powr real_of_int (e + 1) = 2 powi (e + 1)" by (rule powr_real_of_int') simp_all
  have "(\<lfloor>log 2 x\<rfloor> = e) = (2 powr real_of_int e \<le> x \<and> x < 2 powr real_of_int (e + 1))"
    by (rule floor_log_eq_powr_iff) (use assms in simp_all)
  then have "2 powr real_of_int e \<le> x \<and> x < 2 powr real_of_int (e + 1)"
    using e by blast
  then show ?thesis
    unfolding p1 p2 e .
qed

lemma ulp_exp_big: "ulp_exp 9007199254740991 = 0"
proof -
  have "ulp_exp 9007199254740991 = 52 - 52"
    by (rule ulp_exp_eq) simp_all
  then show ?thesis by simp
qed

lemma floor_fl_div:
  assumes b: "0 < b" and a0: "0 \<le> a" and a53: "a < 2 ^ 53"
  shows "\<lfloor>fl (of_int a / of_int b)\<rfloor> = a div b"
proof (cases "a = 0")
  case True
  then show ?thesis by (simp add: fl_def)
next
  case False
  define q :: real where "q = of_int a / of_int b"
  define n where "n = a div b"
  define u :: real where "u = 2 powi ulp_exp q"
  define k where "k = nat (- ulp_exp q)"
  have apos: "0 < a" using False a0 by simp
  have qpos: "0 < q" using apos b by (simp add: q_def)
  have upos: "0 < u" by (simp add: u_def)
  have n0: "0 \<le> n" using a0 b by (simp add: n_def pos_imp_zdiv_nonneg_iff)
  have flq: "fl q = of_int (rne (q / u)) * u"
    using qpos by (simp add: fl_pos_eq u_def)
  have bq: "of_int b * q = of_int a" using b by (simp add: q_def)
  have ints: "b * n \<le> a" "a + 1 \<le> b * n + b"
    using b mult_div_mod_eq[of b a] pos_mod_sign[of b a] pos_mod_bound[of b a]
    unfolding n_def by linarith+
  have "of_int (b * n) \<le> (of_int a :: real)" using ints(1) by (simp only: of_int_le_iff)
  then have "of_int b * of_int n \<le> of_int b * q" using bq by simp
  then have nq: "of_int n \<le> q" using b by simp
  have "(of_int (a + 1) :: real) \<le> of_int (b * n + b)" using ints(2) by (simp only: of_int_le_iff)
  then have "of_int b * q + 1 \<le> of_int b * (of_int n + 1)" using bq by (simp add: algebra_simps)
  then have qn: "q + 1 / of_int b \<le> of_int n + 1"
    using b by (simp add: field_simps)
  have "real_of_int a \<le> 2 ^ 53 - 1"
  proof -
    have "a \<le> 2 ^ 53 - 1" using a53 by simp
    then have "real_of_int a \<le> real_of_int (2 ^ 53 - 1)" by (simp only: of_int_le_iff)
    then show ?thesis by simp
  qed
  moreover have "q \<le> of_int a"
    using b a0 by (simp add: q_def divide_le_eq mult_le_cancel_left1)
  ultimately have "q \<le> 2 ^ 53 - 1" by simp
  then have "ulp_exp q \<le> ulp_exp (2 ^ 53 - 1)" using qpos by (intro ulp_exp_mono)
  then have ule: "ulp_exp q \<le> 0" by (simp add: ulp_exp_big)
  then have "(2::real) powi 0 = 2 ^ k * u" unfolding k_def u_def
    using powi_split[of "ulp_exp q" 0] by simp
  then have ku: "2 ^ k * u = 1" by simp
  have lower: "of_int n \<le> fl q"
  proof -
    have "of_int (n * 2 ^ k) * u \<le> q" using nq ku by (simp add: mult.assoc)
    then have "of_int (n * 2 ^ k) \<le> q / u" using upos by (simp add: le_divide_eq)
    then have "n * 2 ^ k \<le> rne (q / u)" by (rule rne_ge_int)
    then have "of_int (n * 2 ^ k) * u \<le> of_int (rne (q / u)) * u"
      using upos by (simp only: mult_le_cancel_right_pos of_int_le_iff)
    then show ?thesis using ku flq by (simp add: mult.assoc)
  qed
  have upper: "fl q < of_int n + 1"
  proof (cases "q \<le> 1 / 2")
    case True
    then have "fl q \<le> 1 / 2" using qpos by (intro fl_le_half)
    then show ?thesis using n0 by simp
  next
    case False
    define e where "e = \<lfloor>log 2 q\<rfloor>"
    have eb: "2 powi e \<le> q" "q < 2 powi (e + 1)"
      using ulp_exp_bounds[OF qpos] by (simp_all add: e_def)
    have "- 1 \<le> e"
    proof (rule ccontr)
      assume "\<not> - 1 \<le> e"
      then have "e + 1 \<le> - 1" by simp
      then have "(2::real) powi (e + 1) \<le> 2 powi (- 1)" by (intro power_int_increasing) simp_all
      then show False using eb(2) False by (simp add: power_int_minus)
    qed
    then have ue: "ulp_exp q = e - 52" using qpos by (simp add: ulp_exp_def e_def)
    have "u = 2 powi e / 2 ^ 52"
      unfolding u_def ue using power_int_diff[of "2::real" e 52] by simp
    then have "of_int b * u \<le> of_int b * q / 2 ^ 52"
      using eb(1) b by (simp add: divide_le_cancel mult_le_cancel_left_pos)
    also have "\<dots> = of_int a / 2 ^ 52" using bq by simp
    also have "\<dots> < 2" 
    proof -
      have "real_of_int a < real_of_int (2 ^ 53)" using a53 by (simp only: of_int_less_iff)
      then show ?thesis by simp
    qed
    finally have "u / 2 < 1 / of_int b" using b by (simp add: field_simps)
    with qn have "q < of_int n + 1 - u / 2" by simp
    moreover have "(of_int (n + 1) * 2 ^ k - 1 / 2) * u = of_int (n + 1) * (2 ^ k * u) - u / 2"
      by (simp add: algebra_simps)
    ultimately have "q < (of_int (n + 1) * 2 ^ k - 1 / 2) * u"
      by (simp add: ku)
    then have "q / u < of_int ((n + 1) * 2 ^ k) - 1 / 2"
      using upos by (simp add: divide_less_eq)
    then have "rne (q / u) < (n + 1) * 2 ^ k" by (rule rne_lt_int)
    then have "rne (q / u) \<le> (n + 1) * 2 ^ k - 1" by simp
    then have "of_int (rne (q / u)) \<le> (of_int ((n + 1) * 2 ^ k - 1) :: real)"
      by (simp only: of_int_le_iff)
    then have "of_int (rne (q / u)) * u \<le> of_int ((n + 1) * 2 ^ k - 1) * u"
      using upos by (simp only: mult_le_cancel_right_pos)
    also have "\<dots> = of_int (n + 1) * (2 ^ k * u) - u" by (simp add: algebra_simps)
    also have "\<dots> = of_int n + 1 - u" by (simp add: ku)
    finally show ?thesis using flq upos by simp
  qed
  from lower upper show ?thesis
    unfolding q_def n_def by (rule floor_unique)
qed

lemma ulp_exp_2_53: "ulp_exp 9007199254740992 = 1"
proof -
  have "ulp_exp 9007199254740992 = 53 - 52"
    by (rule ulp_exp_eq) simp_all
  then show ?thesis by simp
qed

lemma fl_le_2_53:
  assumes "0 < x" "x \<le> 2 ^ 53" shows "fl x \<le> 2 ^ 53"
proof -
  have "(9007199254740992::real) = real_of_int (2 ^ 52) * 2 powi ulp_exp 9007199254740992"
    unfolding ulp_exp_2_53 by simp
  with assms show ?thesis
    using fl_le_representable[of x 9007199254740992 "2 ^ 52"] by simp
qed

lemma abs_fl_le_2_53:
  assumes "\<bar>x\<bar> \<le> 2 ^ 53" shows "\<bar>fl x\<bar> \<le> 2 ^ 53"
proof (cases "0 < x")
  case True
  then show ?thesis using assms fl_le_2_53[of x] fl_nonneg[of x] by simp
next
  case False
  show ?thesis
  proof (cases "x = 0")
    case True
    then show ?thesis by (simp add: fl_def)
  next
    case False
    with \<open>\<not> 0 < x\<close> have "0 < - x" by simp
    moreover have "- x \<le> 2 ^ 53" using assms by simp
    ultimately have "fl (- x) \<le> 2 ^ 53" "0 \<le> fl (- x)"
      using fl_le_2_53[of "- x"] fl_nonneg[of "- x"] by simp_all
    then show ?thesis by (simp add: fl_minus)
  qed
qed

lemma true_div_Inr:
  assumes "b \<noteq> 0" "\<bar>a\<bar> \<le> 2 ^ 53 * \<bar>b\<bar>"
  shows "true_div a b = Inr (fl (of_int a / of_int b))"
proof -
  have "\<bar>real_of_int a\<bar> \<le> 2 ^ 53 * \<bar>real_of_int b\<bar>"
  proof -
    have "real_of_int \<bar>a\<bar> \<le> real_of_int (2 ^ 53 * \<bar>b\<bar>)"
      using assms(2) by (simp only: of_int_le_iff)
    then show ?thesis by simp
  qed
  then have "\<bar>real_of_int a / real_of_int b\<bar> \<le> 2 ^ 53"
    using assms(1) by (simp add: divide_le_eq)
  then have "\<bar>fl (real_of_int a / real_of_int b)\<bar> \<le> 2 ^ 53"
    by (rule abs_fl_le_2_53)
  moreover have "(2::real) ^ 53 < 2 ^ 1024" by simp
  ultimately have "\<not> 2 ^ 1024 \<le> \<bar>fl (real_of_int a / real_of_int b)\<bar>" by linarith
  then show ?thesis using assms(1) by (simp add: true_div_def Let_def)
qed

lemma derived_width_exact:
  assumes "0 < wh" "h * ww < 2 ^ 53"
  shows "derived_width h ww wh = Inr (int (h * ww div wh))"
proof -
  have a: "int h * int ww < 2 ^ 53"
  proof -
    have "int (h * ww) < int (2 ^ 53)" using assms(2) by (simp only: of_nat_less_iff)
    then show ?thesis by simp
  qed
  have b: "0 < int wh" using assms(1) by simp
  have "\<bar>int h * int ww\<bar> \<le> 2 ^ 53 * \<bar>int wh\<bar>"
  proof -
    have "int h * int ww \<le> 2 ^ 53 * 1" using a by simp
    also have "\<dots> \<le> 2 ^ 53 * int wh" using b by (intro mult_left_mono) simp_all
    finally show ?thesis by simp
  qed
  then have "true_div (int h * int ww) (int wh) = Inr (fl (of_int (int h * int ww) / of_int (int wh)))"
    using b by (intro true_div_Inr) simp_all
  moreover have "\<lfloor>fl (of_int (int h * int ww) / of_int (int wh))\<rfloor> = (int h * int ww) div int wh"
    using b a by (intro floor_fl_div) simp_all
  ultimately show ?thesis
    by (simp add: derived_width_def zdiv_int)
qed

lemma fl_odd_example: "fl 9007199515875289 = 9007199515875288"
proof -
  have u: "ulp_exp 9007199515875289 = 53 - 52"
    by (rule ulp_exp_eq) simp_all
  have "rne (9007199515875289 / 2) = 4503599757937644"
    by (simp add: rne_def Let_def)
  then show ?thesis
    using fl_pos_eq[of 9007199515875289] u by simp
qed

section \<open>The derived interface width\<close>

text \<open>
  C4 (as amended). For every window size \<open>(ww, wh)\<close> with \<open>wh > 0\<close> and interface height \<open>h\<close>
  whose product \<open>h * ww\<close> is below \<open>2 ^ 53\<close>, the width computed in the interface block,
  \<^verbatim>\<open>math.floor(height * window.getWidth() / window.getHeight())\<close>, is the integer
  \<open>floor (h * ww / wh)\<close>. The quotient is a float: the bound is where every integer
  below it is still a float.
\<close>

theorem derived_width_floor:
  "0 < wh \<Longrightarrow> h * ww < 2 ^ 53 \<Longrightarrow> derived_width h ww wh = Inr (int (h * ww div wh))"
  by (rule derived_width_exact)

text \<open>The two scenarios of C4: 1920 by 1080 at height 1080, and 1280 by 720 at height 900.\<close>

theorem derived_width_floor_witness:
  "derived_width 1080 1920 1080 = Inr 1920 \<and> derived_width 900 1280 720 = Inr 1600"
  using derived_width_floor[of 1080 1080 1920] derived_width_floor[of 720 900 1280] by simp

text \<open>
  C4 as stated, for every window size, fails: at height 94906267 in a window 94906267 wide
  and 1 high the product is odd and above \<open>2 ^ 53\<close>, the float quotient is the even
  neighbour, and the width is one less than the exact quotient.
\<close>

theorem derived_width_inexact:
  "derived_width 94906267 94906267 1 = Inr 9007199515875288 \<and>
   int (94906267 * 94906267 div 1) = 9007199515875289"
  by (simp add: derived_width_def true_div_def fl_odd_example)


section \<open>The shape of a frame\<close>

text \<open>
  The four ways a call of \<^verbatim>\<open>main_loop\<close> can run: the window does not render, the scene
  block fails, the interface block is left by an exception or never ends, or the frame
  reaches \<^verbatim>\<open>window.present()\<close>.
\<close>

lemma root_update_loop_false: "\<not> upd k \<Longrightarrow> root_update_loop upd k = Some k"
  by (subst root_update_loop.simps) simp

lemma root_update_loop_true: "upd k \<Longrightarrow> root_update_loop upd k = root_update_loop upd (Suc k)"
  by (subst root_update_loop.simps) simp

lemma update_scene_ok:
  "fst (update_scene e st) = (\<not> (resize_needed e st \<and> \<not> frame_create_ok e) \<and> scene_create_ok e \<and> manager_update_ok e)"
  by (auto simp: update_scene_def resize_frame_def resize_needed_def update_texture_def split: prod.splits)

lemma main_loop_no_render:
  "\<not> window_render e \<Longrightarrow> main_loop e st = (Return False, st, tag PhasePoll [WindowUpdate, WindowRender False])"
  by (simp add: main_loop_def)

lemma main_loop_scene_failed:
  "window_render e \<Longrightarrow> \<not> fst (update_scene e st) \<Longrightarrow>
   main_loop e st = (Return False, fst (snd (update_scene e st)),
     tag PhasePoll [WindowUpdate, WindowRender True] @ tag PhaseSceneUpdate (snd (snd (update_scene e st))))"
  by (cases "update_scene e st") (simp add: main_loop_def)

lemma main_loop_interface_left:
  "window_render e \<Longrightarrow> fst (update_scene e st) \<Longrightarrow> fst (update_interface e) = Some out \<Longrightarrow>
   main_loop e st = (out, fst (snd (update_scene e st)),
     tag PhasePoll [WindowUpdate, WindowRender True] @ tag PhaseSceneUpdate (snd (snd (update_scene e st))) @
     tag PhaseEarlyDispatch dispatch_early @ tag PhaseDeferredDraw draw_deferred @
     tag PhaseLateDispatch dispatch_late @ tag PhaseUIUpdate (snd (update_interface e)))"
  by (cases "update_scene e st"; cases "update_interface e"; cases "present_check e")
     (simp add: main_loop_def Let_def)

lemma main_loop_presented:
  "window_render e \<Longrightarrow> fst (update_scene e st) \<Longrightarrow> fst (update_interface e) = None \<Longrightarrow>
   main_loop e st = (Return (fst (present_check e)), fst (snd (update_scene e st)),
     tag PhasePoll [WindowUpdate, WindowRender True] @ tag PhaseSceneUpdate (snd (snd (update_scene e st))) @
     tag PhaseEarlyDispatch dispatch_early @ tag PhaseDeferredDraw draw_deferred @
     tag PhaseLateDispatch dispatch_late @ tag PhaseUIUpdate (snd (update_interface e)) @
     tag PhaseWindowTarget (window_target e) @ snd (present_check e))"
  by (cases "update_scene e st"; cases "update_interface e"; cases "present_check e")
     (simp add: main_loop_def Let_def)

lemma phase_events_append: "phase_events p (a @ b) = phase_events p a @ phase_events p b"
  by (simp add: phase_events_def)

lemma phase_events_tag: "phase_events p (tag q t) = (if p = q then t else [])"
  by (induction t) (auto simp: phase_events_def tag_def)

lemma phase_events_present_check:
  "phase_events p (snd (present_check e)) =
    (if p = PhasePresent then [WindowPresent (window_present e)]
     else if p = PhaseCheck \<and> window_present e then [DeviceCheck (device_check e)] else [])"
  by (auto simp: phase_events_def present_check_def)

lemma remdups_adj_block:
  "rest = [] \<or> hd rest \<noteq> p \<Longrightarrow> remdups_adj (replicate (Suc n) p @ rest) = p # remdups_adj rest"
proof (induction n)
  case 0
  then show ?case by (cases rest) auto
next
  case (Suc n)
  then show ?case by simp
qed

lemma phases_tag:
  assumes "t \<noteq> []" and "rest = [] \<or> fst (hd rest) \<noteq> p"
  shows "phases (tag p t @ rest) = p # phases rest"
proof -
  obtain n where n: "length t = Suc n" using assms(1) by (cases t) auto
  have "map fst (tag p t) = replicate (Suc n) p"
    unfolding tag_def n[symmetric] by (induction t) auto
  moreover have "map fst rest = [] \<or> hd (map fst rest) \<noteq> p"
    using assms(2) by (cases rest) auto
  ultimately show ?thesis
    unfolding phases_def using remdups_adj_block[of "map fst rest" p n] by simp
qed


subsection \<open>The interface block\<close>

lemma root_update_events_interface:
  "ev \<in> set (root_update_events n) \<Longrightarrow> interface_event ev"
  by (auto simp: interface_event_def root_update_events_def split: if_splits)

lemma interface_events:
  "ev \<in> set (snd (update_interface e)) \<Longrightarrow> interface_event ev"
  unfolding update_interface_def Let_def
  by (auto split: sum.splits option.splits dest: root_update_events_interface
      simp: interface_event_def)

lemma interface_done_nonempty:
  "fst (update_interface e) = None \<Longrightarrow> snd (update_interface e) \<noteq> []"
  by (auto simp: update_interface_def Let_def split: sum.splits option.splits)

lemma update_interface_done:
  assumes wh: "0 < window_height e" and ww: "0 < window_width e"
    and p: "app_height e * window_width e < 2 ^ 53"
    and mx: "\<bar>int (app_height e * window_width e div window_height e) * mouse_x e\<bar>
              \<le> 2 ^ 53 * int (window_width e)"
    and my: "\<bar>int (app_height e) * mouse_y e\<bar> \<le> 2 ^ 53 * int (window_height e)"
    and loop: "root_update_loop (root_update e) 0 = Some n"
  shows "fst (update_interface e) = None"
proof -
  define W where "W = app_height e * window_width e div window_height e"
  have dw: "derived_width (app_height e) (window_width e) (window_height e) = Inr (int W)"
    unfolding W_def using wh p by (rule derived_width_exact)
  have Wle: "W \<le> app_height e * window_width e" unfolding W_def by (rule div_le_dividend)
  have d1: "true_div (int W * mouse_x e) (int (window_width e))
            = Inr (fl (of_int (int W * mouse_x e) / of_int (int (window_width e))))"
    using ww mx unfolding W_def by (intro true_div_Inr) simp_all
  have d2: "true_div (int (app_height e) * mouse_y e) (int (window_height e))
            = Inr (fl (of_int (int (app_height e) * mouse_y e) / of_int (int (window_height e))))"
    using wh my by (intro true_div_Inr) simp_all
  have "W < 2 ^ 53" using Wle p by simp
  then have "int W < 2 ^ 53" by (metis of_nat_less_iff of_nat_numeral of_nat_power)
  moreover have "(2::int) ^ 53 * 1 \<le> 2 ^ 53 * int (window_width e)"
    using ww by (intro mult_left_mono) simp_all
  ultimately have "\<bar>int W\<bar> \<le> 2 ^ 53 * \<bar>int (window_width e)\<bar>" by simp
  then have d3: "true_div (int W) (int (window_width e))
            = Inr (fl (of_int (int W) / of_int (int (window_width e))))"
    using ww by (intro true_div_Inr) simp_all
  have "app_height e \<le> app_height e * window_width e"
    using ww by simp
  then have "app_height e < 2 ^ 53" using p by linarith
  then have "int (app_height e) < 2 ^ 53" by (metis of_nat_less_iff of_nat_numeral of_nat_power)
  moreover have "(2::int) ^ 53 * 1 \<le> 2 ^ 53 * int (window_height e)"
    using wh by (intro mult_left_mono) simp_all
  ultimately have "\<bar>int (app_height e)\<bar> \<le> 2 ^ 53 * \<bar>int (window_height e)\<bar>" by simp
  then have d4: "true_div (int (app_height e)) (int (window_height e))
            = Inr (fl (of_int (int (app_height e)) / of_int (int (window_height e))))"
    using wh by (intro true_div_Inr) simp_all
  show ?thesis
    unfolding update_interface_def Let_def dw using d1 d2 d3 d4 loop by simp
qed

lemma interface_done_frame_ok:
  "window_width e = 1920 \<Longrightarrow> window_height e = 1080 \<Longrightarrow> app_height e = 1080 \<Longrightarrow>
   mouse_x e = 0 \<Longrightarrow> mouse_y e = 0 \<Longrightarrow> \<not> root_update e 0 \<Longrightarrow> interface_done e"
  unfolding interface_done_def
  by (rule update_interface_done[where n = 0]) (simp_all add: root_update_loop_false)


subsection \<open>Outcome, trace and state of a frame\<close>

lemma update_scene_events:
  "snd (snd (update_scene e st)) =
    RenderManagerUpdate # snd (snd (resize_frame e st)) @
    (if fst (resize_frame e st) then
       snd (update_texture e (fst (snd (resize_frame e st)))) @ update_graph @
       (if \<not> scene_create_ok e then [SceneCreate False]
        else [SceneCreate True, SceneSetTime, SceneUpdate,
              SceneManagerUpdate (manager_update_ok e)])
     else [])"
  by (cases "resize_frame e st"; cases "update_texture e (fst (snd (resize_frame e st)))")
     (auto simp: update_scene_def)

lemma update_scene_nonempty: "snd (snd (update_scene e st)) \<noteq> []"
  by (simp add: update_scene_events)

lemma early_failure_iff: "early_failure e st = (\<not> window_render e \<or> \<not> fst (update_scene e st))"
  by (auto simp: early_failure_def update_scene_ok)

lemma main_loop_outcome:
  "frame_outcome (main_loop e st) =
    (if early_failure e st then Return False
     else case fst (update_interface e) of
            Some out \<Rightarrow> out
          | None \<Rightarrow> Return (window_present e \<and> device_check e))"
proof (cases "window_render e")
  case False
  then show ?thesis
    by (simp add: main_loop_no_render frame_outcome_def early_failure_iff)
next
  case r: True
  show ?thesis
  proof (cases "fst (update_scene e st)")
    case False
    then show ?thesis using r
      by (simp add: main_loop_scene_failed frame_outcome_def early_failure_iff)
  next
    case s: True
    show ?thesis
    proof (cases "fst (update_interface e)")
      case None
      then show ?thesis using r s
        by (simp add: main_loop_presented frame_outcome_def early_failure_iff present_check_def)
    next
      case (Some out)
      then show ?thesis using r s
        by (simp add: main_loop_interface_left frame_outcome_def early_failure_iff)
    qed
  qed
qed

lemma completed_frame:
  assumes "frame_outcome (main_loop e st) = Return True"
  shows "window_render e \<and> fst (update_scene e st) \<and> fst (update_interface e) = None \<and>
         window_present e \<and> device_check e"
proof -
  have nf: "\<not> early_failure e st"
    using assms by (auto simp: main_loop_outcome)
  have "fst (update_interface e) = None"
  proof (cases "fst (update_interface e)")
    case None then show ?thesis .
  next
    case (Some out)
    have "out = Raise ZeroDivisionError \<or> out = Raise OverflowError \<or> out = Hang"
      using Some unfolding update_interface_def Let_def
      by (auto split: sum.splits option.splits) (metis py_error.exhaust)+
    moreover have "out = Return True" using assms nf Some by (simp add: main_loop_outcome)
    ultimately show ?thesis by simp
  qed
  then show ?thesis using assms nf
    by (auto simp: main_loop_outcome early_failure_iff)
qed

lemma main_loop_trace:
  "frame_trace (main_loop e st) =
    tag PhasePoll [WindowUpdate, WindowRender (window_render e)] @
    (if \<not> window_render e then []
     else tag PhaseSceneUpdate (snd (snd (update_scene e st))) @
       (if \<not> fst (update_scene e st) then []
        else tag PhaseEarlyDispatch dispatch_early @ tag PhaseDeferredDraw draw_deferred @
             tag PhaseLateDispatch dispatch_late @ tag PhaseUIUpdate (snd (update_interface e)) @
             (if fst (update_interface e) \<noteq> None then []
              else tag PhaseWindowTarget (window_target e) @ snd (present_check e))))"
proof (cases "window_render e")
  case False
  then show ?thesis by (simp add: main_loop_no_render frame_trace_def)
next
  case r: True
  show ?thesis
  proof (cases "fst (update_scene e st)")
    case False
    then show ?thesis using r by (simp add: main_loop_scene_failed frame_trace_def)
  next
    case s: True
    show ?thesis
    proof (cases "fst (update_interface e)")
      case None
      then show ?thesis using r s by (simp add: main_loop_presented frame_trace_def)
    next
      case (Some out)
      then show ?thesis using r s by (simp add: main_loop_interface_left frame_trace_def)
    qed
  qed
qed

lemma main_loop_after:
  "frame_after (main_loop e st) = (if window_render e then fst (snd (update_scene e st)) else st)"
proof (cases "window_render e")
  case False
  then show ?thesis by (simp add: main_loop_no_render frame_after_def)
next
  case r: True
  show ?thesis
  proof (cases "fst (update_scene e st)")
    case False
    then show ?thesis using r by (simp add: main_loop_scene_failed frame_after_def)
  next
    case s: True
    show ?thesis
    proof (cases "fst (update_interface e)")
      case None
      then show ?thesis using r s by (simp add: main_loop_presented frame_after_def)
    next
      case (Some out)
      then show ?thesis using r s by (simp add: main_loop_interface_left frame_after_def)
    qed
  qed
qed

lemma map_snd_tag: "map snd (tag p t) = t"
  by (simp add: tag_def comp_def)

lemma interface_filter:
  "(\<And>ev. interface_event ev \<Longrightarrow> \<not> P ev) \<Longrightarrow> filter P (snd (update_interface e)) = []"
  by (auto simp: filter_empty_conv dest: interface_events)

lemma phase_events_Nil: "phase_events p [] = []"
  by (simp add: phase_events_def)

section \<open>The late dispatch group\<close>

text \<open>
  C3 (as amended). In every frame that reaches the second dispatch block, that is, in which
  \<^verbatim>\<open>window.render()\<close>, a needed \<^verbatim>\<open>render_frame.create\<close>, \<^verbatim>\<open>scene.create\<close> and
  \<^verbatim>\<open>scene_manager.update\<close> all succeed, the block issues exactly the four passes Light,
  Occluder, Luminance, Composite in this order inside one compute scope, Composite last. A
  frame abandoned before the block issues none of them.
\<close>

theorem late_dispatch_passes:
  "phase_events PhaseLateDispatch (frame_trace (main_loop e st)) =
    (if early_failure e st then []
     else [CreateCompute, DispatchLight, DispatchOccluder, DispatchLuminance, DispatchComposite,
           ReleaseCompute])"
  by (simp add: main_loop_trace phase_events_append phase_events_tag phase_events_present_check
      phase_events_Nil early_failure_iff dispatch_late_def)

text \<open>The frame in which every call succeeds reaches the block and issues the four passes.\<close>

theorem late_dispatch_passes_witness:
  "\<not> early_failure frame_ok frame0 \<and>
   phase_events PhaseLateDispatch (frame_trace (main_loop frame_ok frame0)) =
     [CreateCompute, DispatchLight, DispatchOccluder, DispatchLuminance, DispatchComposite,
      ReleaseCompute]"
  using late_dispatch_passes[of frame_ok frame0]
  by (simp add: early_failure_def frame_ok_def)

text \<open>
  C3 as stated, for every frame, fails: a frame in which \<^verbatim>\<open>window.render()\<close> returns false
  issues no late pass.
\<close>

theorem late_dispatch_absent:
  "phase_events PhaseLateDispatch
     (frame_trace (main_loop (frame_ok\<lparr>window_render := False\<rparr>) frame0)) = []"
  by (simp add: main_loop_no_render frame_trace_def frame_ok_def phase_events_tag)


section \<open>Phase order\<close>

lemma hd_tag: "t \<noteq> [] \<Longrightarrow> fst (hd (tag p t @ rest)) = p"
  by (cases t) (simp_all add: tag_def)

lemma window_target_nonempty: "window_target e \<noteq> []"
  by (simp add: window_target_def)

lemma completed_frame_phases:
  assumes "frame_outcome (main_loop e st) = Return True"
  shows "phases (frame_trace (main_loop e st)) =
    [PhasePoll, PhaseSceneUpdate, PhaseEarlyDispatch, PhaseDeferredDraw, PhaseLateDispatch,
     PhaseUIUpdate, PhaseWindowTarget, PhasePresent, PhaseCheck]"
proof -
  from completed_frame[OF assms] have r: "window_render e" and s: "fst (update_scene e st)"
    and u: "fst (update_interface e) = None" and p: "window_present e" and c: "device_check e"
    by simp_all
  define t8 where "t8 = snd (present_check e)"
  define t7 where "t7 = tag PhaseWindowTarget (window_target e) @ t8"
  define t6 where "t6 = tag PhaseUIUpdate (snd (update_interface e)) @ t7"
  define t5 where "t5 = tag PhaseLateDispatch dispatch_late @ t6"
  define t4 where "t4 = tag PhaseDeferredDraw draw_deferred @ t5"
  define t3 where "t3 = tag PhaseEarlyDispatch dispatch_early @ t4"
  define t2 where "t2 = tag PhaseSceneUpdate (snd (snd (update_scene e st))) @ t3"
  have tr: "frame_trace (main_loop e st) = tag PhasePoll [WindowUpdate, WindowRender True] @ t2"
    using r s u by (simp add: main_loop_trace t2_def t3_def t4_def t5_def t6_def t7_def t8_def)
  have p8: "phases t8 = [PhasePresent, PhaseCheck]" and h8: "fst (hd t8) = PhasePresent"
    using p c by (simp_all add: t8_def present_check_def phases_def)
  have p7: "phases t7 = PhaseWindowTarget # phases t8" and h7: "fst (hd t7) = PhaseWindowTarget"
    unfolding t7_def using h8 by (simp_all add: phases_tag hd_tag window_target_nonempty)
  have p6: "phases t6 = PhaseUIUpdate # phases t7" and h6: "fst (hd t6) = PhaseUIUpdate"
    unfolding t6_def using h7 u by (simp_all add: phases_tag hd_tag interface_done_nonempty)
  have p5: "phases t5 = PhaseLateDispatch # phases t6" and h5: "fst (hd t5) = PhaseLateDispatch"
    unfolding t5_def using h6 by (simp_all add: phases_tag hd_tag dispatch_late_def)
  have p4: "phases t4 = PhaseDeferredDraw # phases t5" and h4: "fst (hd t4) = PhaseDeferredDraw"
    unfolding t4_def using h5 by (simp_all add: phases_tag hd_tag draw_deferred_def)
  have p3: "phases t3 = PhaseEarlyDispatch # phases t4" and h3: "fst (hd t3) = PhaseEarlyDispatch"
    unfolding t3_def using h4 by (simp_all add: phases_tag hd_tag dispatch_early_def)
  have p2: "phases t2 = PhaseSceneUpdate # phases t3" and h2: "fst (hd t2) = PhaseSceneUpdate"
    unfolding t2_def using h3 by (simp_all add: phases_tag hd_tag update_scene_nonempty)
  have "phases (tag PhasePoll [WindowUpdate, WindowRender True] @ t2) = PhasePoll # phases t2"
    using h2 by (simp add: phases_tag)
  then show ?thesis
    by (simp add: tr p2 p3 p4 p5 p6 p7 p8)
qed

lemma interface_done_events:
  assumes "fst (update_interface e) = None"
  shows "\<exists>W sx sy mx my n.
    snd (update_interface e) =
      [RectSetTexture, RectSetTextureScale sx sy, RectSetTextureFlip,
       RootSetViewport W (app_height e), RootSetMouse mx my (button_left e \<or> button_left2 e)] @
      concat (replicate n [CanvasGetScale, RootUpdate True]) @
      [CanvasGetScale, RootUpdate False, CanvasCreate]"
  using assms unfolding update_interface_def Let_def root_update_events_def
  by (auto split: sum.splits option.splits)

text \<open>
  C2. In every frame in which \<^verbatim>\<open>main_loop\<close> returns true, the calls of the frame are, in this
  order and with nothing else between them: the window update and render; the scene update
  (render manager update, the resize check with its create and log when the sizes differ,
  the texture update when it is due, the graph update, then scene create, time, update and
  the manager update); the early dispatch (manager, scene, spatial frames, spatial objects,
  renderer frames, in one compute scope); the flushes and the deferred draw; the late
  dispatch; the interface update; the window target block; Present; the device check.
  Each block occurs once, and the six phases of the claim occur in its order.
\<close>

theorem completed_frame_phase_order:
  assumes "frame_outcome (main_loop e st) = Return True"
  shows "(\<exists>W sx sy mx my n.
      frame_trace (main_loop e st) =
        map (Pair PhasePoll) [WindowUpdate, WindowRender True] @
        map (Pair PhaseSceneUpdate)
          ([RenderManagerUpdate] @
           (if frame_width st \<noteq> window_width e \<or> frame_height st \<noteq> window_height e
            then [FrameCreate (window_width e) (window_height e) True,
                  LogFrameResized (window_width e) (window_height e)]
            else []) @
           (if texture_due e
            then [CreateImage 128 (texture_frame st), MaterialSetTexture, MaterialUpdateScene]
            else []) @
           [NodeSetGlobalTransform, NodeUpdateScene, GraphUpdateSpatial, GraphUpdateScene,
            SceneCreate True, SceneSetTime, SceneUpdate, SceneManagerUpdate True]) @
        map (Pair PhaseEarlyDispatch)
          [CreateCompute, SceneManagerDispatch, SceneDispatch, SpatialDispatchFrames,
           SpatialDispatchObjects, RendererDispatchFrames, ReleaseCompute] @
        map (Pair PhaseDeferredDraw)
          [SceneManagerFlush, RenderManagerFlush, RenderFrameFlush, DrawDeferred] @
        map (Pair PhaseLateDispatch)
          [CreateCompute, DispatchLight, DispatchOccluder, DispatchLuminance,
           DispatchComposite, ReleaseCompute] @
        map (Pair PhaseUIUpdate)
          ([RectSetTexture, RectSetTextureScale sx sy, RectSetTextureFlip,
            RootSetViewport W (app_height e),
            RootSetMouse mx my (button_left e \<or> button_left2 e)] @
           concat (replicate n [CanvasGetScale, RootUpdate True]) @
           [CanvasGetScale, RootUpdate False, CanvasCreate]) @
        map (Pair PhaseWindowTarget)
          (if target_begin e
           then [TargetBegin True, CreateCommand, SetPipeline, SetUniform, SetVertices,
                 SetIndices, DrawElements 3, CanvasDraw, ReleaseCommand, TargetEnd]
           else [TargetBegin False]) @
        [(PhasePresent, WindowPresent True), (PhaseCheck, DeviceCheck True)]) \<and>
    phases (frame_trace (main_loop e st)) =
      [PhasePoll, PhaseSceneUpdate, PhaseEarlyDispatch, PhaseDeferredDraw, PhaseLateDispatch,
       PhaseUIUpdate, PhaseWindowTarget, PhasePresent, PhaseCheck] \<and>
    filter (\<lambda>p. p \<noteq> PhasePoll \<and> p \<noteq> PhaseWindowTarget \<and> p \<noteq> PhaseCheck)
      (phases (frame_trace (main_loop e st))) =
      [PhaseSceneUpdate, PhaseEarlyDispatch, PhaseDeferredDraw, PhaseLateDispatch,
       PhaseUIUpdate, PhasePresent] \<and>
    filter is_present (map snd (frame_trace (main_loop e st))) = [WindowPresent True]"
proof -
  from completed_frame[OF assms] have r: "window_render e" and s: "fst (update_scene e st)"
    and u: "fst (update_interface e) = None" and p: "window_present e" and c: "device_check e"
    by simp_all
  have rf: "fst (resize_frame e st)" and sc: "scene_create_ok e" and mu: "manager_update_ok e"
    and fc: "resize_needed e st \<longrightarrow> frame_create_ok e"
    using s by (auto simp: update_scene_ok resize_frame_def resize_needed_def)
  have scene: "snd (snd (update_scene e st)) =
      [RenderManagerUpdate] @
      (if frame_width st \<noteq> window_width e \<or> frame_height st \<noteq> window_height e
       then [FrameCreate (window_width e) (window_height e) True,
             LogFrameResized (window_width e) (window_height e)]
       else []) @
      (if texture_due e
       then [CreateImage 128 (texture_frame st), MaterialSetTexture, MaterialUpdateScene]
       else []) @
      [NodeSetGlobalTransform, NodeUpdateScene, GraphUpdateSpatial, GraphUpdateScene,
       SceneCreate True, SceneSetTime, SceneUpdate, SceneManagerUpdate True]"
    using rf sc mu fc
    by (auto simp: update_scene_events resize_frame_def resize_needed_def update_texture_def
        update_graph_def)
  from interface_done_events[OF u] obtain W sx sy mx my n where
    ui: "snd (update_interface e) =
      [RectSetTexture, RectSetTextureScale sx sy, RectSetTextureFlip,
       RootSetViewport W (app_height e), RootSetMouse mx my (button_left e \<or> button_left2 e)] @
      concat (replicate n [CanvasGetScale, RootUpdate True]) @
      [CanvasGetScale, RootUpdate False, CanvasCreate]"
    by blast
  have pc: "snd (present_check e) = [(PhasePresent, WindowPresent True), (PhaseCheck, DeviceCheck True)]"
    using p c by (simp add: present_check_def)
  have tr: "frame_trace (main_loop e st) =
        map (Pair PhasePoll) [WindowUpdate, WindowRender True] @
        map (Pair PhaseSceneUpdate) (snd (snd (update_scene e st))) @
        map (Pair PhaseEarlyDispatch)
          [CreateCompute, SceneManagerDispatch, SceneDispatch, SpatialDispatchFrames,
           SpatialDispatchObjects, RendererDispatchFrames, ReleaseCompute] @
        map (Pair PhaseDeferredDraw)
          [SceneManagerFlush, RenderManagerFlush, RenderFrameFlush, DrawDeferred] @
        map (Pair PhaseLateDispatch)
          [CreateCompute, DispatchLight, DispatchOccluder, DispatchLuminance,
           DispatchComposite, ReleaseCompute] @
        map (Pair PhaseUIUpdate) (snd (update_interface e)) @
        map (Pair PhaseWindowTarget)
          (if target_begin e
           then [TargetBegin True, CreateCommand, SetPipeline, SetUniform, SetVertices,
                 SetIndices, DrawElements 3, CanvasDraw, ReleaseCommand, TargetEnd]
           else [TargetBegin False]) @
        [(PhasePresent, WindowPresent True), (PhaseCheck, DeviceCheck True)]"
    using r s u
    by (simp add: main_loop_trace pc tag_def dispatch_early_def draw_deferred_def
        dispatch_late_def window_target_def)
  have 1: "\<exists>W sx sy mx my n.
      frame_trace (main_loop e st) =
        map (Pair PhasePoll) [WindowUpdate, WindowRender True] @
        map (Pair PhaseSceneUpdate)
          ([RenderManagerUpdate] @
           (if frame_width st \<noteq> window_width e \<or> frame_height st \<noteq> window_height e
            then [FrameCreate (window_width e) (window_height e) True,
                  LogFrameResized (window_width e) (window_height e)]
            else []) @
           (if texture_due e
            then [CreateImage 128 (texture_frame st), MaterialSetTexture, MaterialUpdateScene]
            else []) @
           [NodeSetGlobalTransform, NodeUpdateScene, GraphUpdateSpatial, GraphUpdateScene,
            SceneCreate True, SceneSetTime, SceneUpdate, SceneManagerUpdate True]) @
        map (Pair PhaseEarlyDispatch)
          [CreateCompute, SceneManagerDispatch, SceneDispatch, SpatialDispatchFrames,
           SpatialDispatchObjects, RendererDispatchFrames, ReleaseCompute] @
        map (Pair PhaseDeferredDraw)
          [SceneManagerFlush, RenderManagerFlush, RenderFrameFlush, DrawDeferred] @
        map (Pair PhaseLateDispatch)
          [CreateCompute, DispatchLight, DispatchOccluder, DispatchLuminance,
           DispatchComposite, ReleaseCompute] @
        map (Pair PhaseUIUpdate)
          ([RectSetTexture, RectSetTextureScale sx sy, RectSetTextureFlip,
            RootSetViewport W (app_height e),
            RootSetMouse mx my (button_left e \<or> button_left2 e)] @
           concat (replicate n [CanvasGetScale, RootUpdate True]) @
           [CanvasGetScale, RootUpdate False, CanvasCreate]) @
        map (Pair PhaseWindowTarget)
          (if target_begin e
           then [TargetBegin True, CreateCommand, SetPipeline, SetUniform, SetVertices,
                 SetIndices, DrawElements 3, CanvasDraw, ReleaseCommand, TargetEnd]
           else [TargetBegin False]) @
        [(PhasePresent, WindowPresent True), (PhaseCheck, DeviceCheck True)]"
    unfolding tr scene ui by blast
  have ip: "filter is_present (snd (update_interface e)) = []"
    by (rule interface_filter) (auto simp: interface_event_def is_present_def split: event.splits)
  have 4: "filter is_present (map snd (frame_trace (main_loop e st))) = [WindowPresent True]"
    unfolding tr scene by (simp add: comp_def ip is_present_def)
  show ?thesis
    using 1 4 completed_frame_phases[OF assms] by simp
qed

lemma frame_ok_outcome:
  "frame_outcome (main_loop frame_ok frame0) = Return True"
proof -
  have "interface_done frame_ok"
    by (rule interface_done_frame_ok) (simp_all add: frame_ok_def)
  then show ?thesis
    by (simp add: main_loop_outcome early_failure_def interface_done_def frame_ok_def)
qed

text \<open>The frame in which every call succeeds returns true.\<close>

theorem completed_frame_phase_order_witness:
  "frame_outcome (main_loop frame_ok frame0) = Return True \<and>
   phases (frame_trace (main_loop frame_ok frame0)) =
      [PhasePoll, PhaseSceneUpdate, PhaseEarlyDispatch, PhaseDeferredDraw, PhaseLateDispatch,
       PhaseUIUpdate, PhaseWindowTarget, PhasePresent, PhaseCheck] \<and>
   filter is_present (map snd (frame_trace (main_loop frame_ok frame0))) = [WindowPresent True]"
  using completed_frame_phase_order[OF frame_ok_outcome] frame_ok_outcome by simp


section \<open>Failing phases\<close>

lemma in_tag: "(q, x) \<in> set (tag p t) \<longleftrightarrow> q = p \<and> x \<in> set t"
  by (auto simp: tag_def)

lemma update_scene_size:
  "frame_width (fst (snd (update_scene e st))) = frame_width (fst (snd (resize_frame e st))) \<and>
   frame_height (fst (snd (update_scene e st))) = frame_height (fst (snd (resize_frame e st)))"
  by (cases "resize_frame e st"; cases "update_texture e (fst (snd (resize_frame e st)))")
     (auto simp: update_scene_def update_texture_def split: if_splits bool.splits)

lemma frame_creates_of_trace:
  "filter P (map snd (frame_trace (main_loop e st))) =
    filter P [WindowUpdate, WindowRender (window_render e)] @
    (if \<not> window_render e then []
     else filter P (snd (snd (update_scene e st))) @
       (if \<not> fst (update_scene e st) then []
        else filter P dispatch_early @ filter P draw_deferred @ filter P dispatch_late @
             filter P (snd (update_interface e)) @
             (if fst (update_interface e) \<noteq> None then []
              else filter P (window_target e) @ filter P (map snd (snd (present_check e))))))"
  by (simp add: main_loop_trace map_snd_tag)

lemma map_snd_present_check:
  "map snd (snd (present_check e)) =
    WindowPresent (window_present e) #
    (if window_present e then [DeviceCheck (device_check e)] else [])"
  by (auto simp: present_check_def)



lemma scene_failed_last:
  "\<not> fst (update_scene e st) \<Longrightarrow>
   last (snd (snd (update_scene e st))) =
     (if resize_needed e st \<and> \<not> frame_create_ok e
      then FrameCreate (window_width e) (window_height e) False
      else if \<not> scene_create_ok e then SceneCreate False
      else SceneManagerUpdate False)"
  by (auto simp: update_scene_ok update_scene_events resize_frame_def resize_needed_def)






section \<open>Recreation of the frame target\<close>

text \<open>
  C6 (as amended). In every frame in which \<^verbatim>\<open>window.render()\<close> succeeds,
  \<^verbatim>\<open>render_frame.create\<close> is called, once and with the size of the window, if and only if
  the width or the height of the frame target differs from the window's; a frame in which
  \<^verbatim>\<open>window.render()\<close> fails calls it never. Without the call the size of the target is
  unchanged. When the call succeeds the size of the window is logged once; when it fails
  nothing is logged, the call is the last of the frame and \<^verbatim>\<open>main_loop\<close> returns false.
\<close>

theorem frame_target_recreation:
  "filter is_frame_create (map snd (frame_trace (main_loop e st))) =
     (if window_render e \<and> resize_needed e st
      then [FrameCreate (window_width e) (window_height e) (frame_create_ok e)] else []) \<and>
   filter is_frame_log (map snd (frame_trace (main_loop e st))) =
     (if window_render e \<and> resize_needed e st \<and> frame_create_ok e
      then [LogFrameResized (window_width e) (window_height e)] else []) \<and>
   (\<not> (window_render e \<and> resize_needed e st) \<longrightarrow>
      frame_width (frame_after (main_loop e st)) = frame_width st \<and>
      frame_height (frame_after (main_loop e st)) = frame_height st) \<and>
   (window_render e \<and> resize_needed e st \<and> \<not> frame_create_ok e \<longrightarrow>
      frame_outcome (main_loop e st) = Return False \<and>
      last (map snd (frame_trace (main_loop e st))) =
        FrameCreate (window_width e) (window_height e) False)"
proof -
  have c: "filter is_frame_create (snd (update_interface e)) = []"
    by (rule interface_filter) (auto simp: interface_event_def is_frame_create_def split: event.splits)
  have l: "filter is_frame_log (snd (update_interface e)) = []"
    by (rule interface_filter) (auto simp: interface_event_def is_frame_log_def split: event.splits)
  have 1: "filter is_frame_create (map snd (frame_trace (main_loop e st))) =
     (if window_render e \<and> resize_needed e st
      then [FrameCreate (window_width e) (window_height e) (frame_create_ok e)] else [])"
    unfolding frame_creates_of_trace c
    by (auto simp: update_scene_events resize_frame_def resize_needed_def update_texture_def
        update_graph_def dispatch_early_def draw_deferred_def dispatch_late_def window_target_def
        map_snd_present_check is_frame_create_def)
  have 2: "filter is_frame_log (map snd (frame_trace (main_loop e st))) =
     (if window_render e \<and> resize_needed e st \<and> frame_create_ok e
      then [LogFrameResized (window_width e) (window_height e)] else [])"
    unfolding frame_creates_of_trace l
    by (auto simp: update_scene_events resize_frame_def resize_needed_def update_texture_def
        update_graph_def dispatch_early_def draw_deferred_def dispatch_late_def window_target_def
        map_snd_present_check is_frame_log_def)
  have 3: "\<not> (window_render e \<and> resize_needed e st) \<longrightarrow>
      frame_width (frame_after (main_loop e st)) = frame_width st \<and>
      frame_height (frame_after (main_loop e st)) = frame_height st"
    by (auto simp: main_loop_after update_scene_size resize_frame_def resize_needed_def)
  have 4: "window_render e \<and> resize_needed e st \<and> \<not> frame_create_ok e \<longrightarrow>
      frame_outcome (main_loop e st) = Return False \<and>
      last (map snd (frame_trace (main_loop e st))) =
        FrameCreate (window_width e) (window_height e) False"
  proof
    assume a: "window_render e \<and> resize_needed e st \<and> \<not> frame_create_ok e"
    then have f: "\<not> fst (update_scene e st)" by (simp add: update_scene_ok)
    have "early_failure e st" using a by (simp add: early_failure_def)
    then have "frame_outcome (main_loop e st) = Return False" by (simp add: main_loop_outcome)
    moreover have "last (map snd (frame_trace (main_loop e st))) =
        FrameCreate (window_width e) (window_height e) False"
      using a f scene_failed_last[OF f]
      by (simp add: main_loop_trace map_snd_tag update_scene_nonempty)
    ultimately show "frame_outcome (main_loop e st) = Return False \<and>
      last (map snd (frame_trace (main_loop e st))) =
        FrameCreate (window_width e) (window_height e) False" by blast
  qed
  from 1 2 3 4 show ?thesis by blast
qed

text \<open>
  The first frame of a 1920 by 1080 window creates the target and logs the size; a frame
  whose target has the size of the window leaves it alone; a failing create logs nothing.
\<close>

theorem frame_target_recreation_witness:
  "(window_render frame_ok \<and> resize_needed frame_ok frame0 \<and> frame_create_ok frame_ok \<and>
    filter is_frame_create (map snd (frame_trace (main_loop frame_ok frame0))) =
      [FrameCreate 1920 1080 True] \<and>
    filter is_frame_log (map snd (frame_trace (main_loop frame_ok frame0))) =
      [LogFrameResized 1920 1080]) \<and>
   (\<not> resize_needed frame_ok \<lparr>texture_frame = 0, frame_width = 1920, frame_height = 1080\<rparr> \<and>
    filter is_frame_create
      (map snd (frame_trace
         (main_loop frame_ok \<lparr>texture_frame = 0, frame_width = 1920, frame_height = 1080\<rparr>))) = [] \<and>
    frame_width (frame_after
      (main_loop frame_ok \<lparr>texture_frame = 0, frame_width = 1920, frame_height = 1080\<rparr>)) = 1920) \<and>
   (frame_outcome (main_loop (frame_ok\<lparr>frame_create_ok := False\<rparr>) frame0) = Return False \<and>
    filter is_frame_log
      (map snd (frame_trace (main_loop (frame_ok\<lparr>frame_create_ok := False\<rparr>) frame0))) = [])"
proof -
  have a: "window_render frame_ok" "resize_needed frame_ok frame0" "frame_create_ok frame_ok"
    "window_width frame_ok = 1920" "window_height frame_ok = 1080"
    by (simp_all add: frame_ok_def frame0_def resize_needed_def)
  have b: "\<not> resize_needed frame_ok \<lparr>texture_frame = 0, frame_width = 1920, frame_height = 1080\<rparr>"
    by (simp add: frame_ok_def resize_needed_def)
  have c: "window_render (frame_ok\<lparr>frame_create_ok := False\<rparr>)"
    "resize_needed (frame_ok\<lparr>frame_create_ok := False\<rparr>) frame0"
    "\<not> frame_create_ok (frame_ok\<lparr>frame_create_ok := False\<rparr>)"
    by (simp_all add: frame_ok_def frame0_def resize_needed_def)
  have 1: "filter is_frame_create (map snd (frame_trace (main_loop frame_ok frame0))) =
      [FrameCreate 1920 1080 True] \<and>
    filter is_frame_log (map snd (frame_trace (main_loop frame_ok frame0))) =
      [LogFrameResized 1920 1080]"
    using a frame_target_recreation[of frame_ok frame0] by simp
  have 2: "filter is_frame_create
      (map snd (frame_trace
         (main_loop frame_ok \<lparr>texture_frame = 0, frame_width = 1920, frame_height = 1080\<rparr>))) = [] \<and>
    frame_width (frame_after
      (main_loop frame_ok \<lparr>texture_frame = 0, frame_width = 1920, frame_height = 1080\<rparr>)) = 1920"
    using b
      frame_target_recreation[of frame_ok
        "\<lparr>texture_frame = 0, frame_width = 1920, frame_height = 1080\<rparr>"]
    by simp
  have 3: "frame_outcome (main_loop (frame_ok\<lparr>frame_create_ok := False\<rparr>) frame0) = Return False \<and>
    filter is_frame_log
      (map snd (frame_trace (main_loop (frame_ok\<lparr>frame_create_ok := False\<rparr>) frame0))) = []"
    using c frame_target_recreation[of "frame_ok\<lparr>frame_create_ok := False\<rparr>" frame0]
    by auto
  from a b 1 2 3 show ?thesis by blast
qed

text \<open>
  C6 as stated, for every frame, fails: when \<^verbatim>\<open>window.render()\<close> returns false the sizes
  differ and \<^verbatim>\<open>create\<close> is not called; when \<^verbatim>\<open>create\<close> is called and fails, the sizes
  differ, nothing is logged and the frame ends there.
\<close>

theorem no_recreation_without_render:
  "(resize_needed (frame_ok\<lparr>window_render := False\<rparr>) frame0 \<and>
    filter is_frame_create
      (map snd (frame_trace (main_loop (frame_ok\<lparr>window_render := False\<rparr>) frame0))) = []) \<and>
   (resize_needed (frame_ok\<lparr>frame_create_ok := False\<rparr>) frame0 \<and>
    map snd (frame_trace (main_loop (frame_ok\<lparr>frame_create_ok := False\<rparr>) frame0)) =
      [WindowUpdate, WindowRender True, RenderManagerUpdate, FrameCreate 1920 1080 False] \<and>
    frame_outcome (main_loop (frame_ok\<lparr>frame_create_ok := False\<rparr>) frame0) = Return False)"
proof -
  have 1: "resize_needed (frame_ok\<lparr>window_render := False\<rparr>) frame0 \<and>
    filter is_frame_create
      (map snd (frame_trace (main_loop (frame_ok\<lparr>window_render := False\<rparr>) frame0))) = []"
    by (simp add: main_loop_no_render frame_trace_def map_snd_tag is_frame_create_def
        resize_needed_def frame_ok_def frame0_def)
  have r: "window_render (frame_ok\<lparr>frame_create_ok := False\<rparr>)"
    and n: "resize_needed (frame_ok\<lparr>frame_create_ok := False\<rparr>) frame0"
    and f: "\<not> fst (update_scene (frame_ok\<lparr>frame_create_ok := False\<rparr>) frame0)"
    by (simp_all add: update_scene_ok resize_needed_def frame_ok_def frame0_def)
  have ev: "snd (snd (update_scene (frame_ok\<lparr>frame_create_ok := False\<rparr>) frame0)) =
      [RenderManagerUpdate, FrameCreate 1920 1080 False]"
    by (simp add: update_scene_events resize_frame_def frame_ok_def frame0_def)
  have "map snd (frame_trace (main_loop (frame_ok\<lparr>frame_create_ok := False\<rparr>) frame0)) =
      [WindowUpdate, WindowRender True, RenderManagerUpdate, FrameCreate 1920 1080 False]"
    using r f by (simp add: main_loop_trace map_snd_tag ev)
  moreover have "frame_outcome (main_loop (frame_ok\<lparr>frame_create_ok := False\<rparr>) frame0) = Return False"
    using r f by (simp add: main_loop_outcome early_failure_iff)
  ultimately show ?thesis using 1 n by blast
qed


section \<open>A failed \<^verbatim>\<open>target.begin()\<close>\<close>

lemma scene_events_no_draw:
  "DrawElements n \<notin> set (snd (snd (update_scene e st))) \<and>
   CanvasDraw \<notin> set (snd (snd (update_scene e st))) \<and>
   TargetEnd \<notin> set (snd (snd (update_scene e st)))"
  by (auto simp: update_scene_events resize_frame_def update_texture_def update_graph_def)

text \<open>
  C8. In every frame in which \<^verbatim>\<open>target.begin()\<close> is called and returns false, the window
  target block consists of that call alone: neither \<^verbatim>\<open>drawElements\<close> nor \<^verbatim>\<open>canvas.draw\<close> nor
  \<^verbatim>\<open>target.end()\<close> is called in the frame, and the frame goes on to \<^verbatim>\<open>window.present()\<close> and
  returns what present and device check decide.
\<close>

theorem begin_failure_skips_drawing:
  assumes "(PhaseWindowTarget, TargetBegin False) \<in> set (frame_trace (main_loop e st))"
  shows "phase_events PhaseWindowTarget (frame_trace (main_loop e st)) = [TargetBegin False] \<and>
    DrawElements n \<notin> set (map snd (frame_trace (main_loop e st))) \<and>
    CanvasDraw \<notin> set (map snd (frame_trace (main_loop e st))) \<and>
    TargetEnd \<notin> set (map snd (frame_trace (main_loop e st))) \<and>
    phase_events PhasePresent (frame_trace (main_loop e st)) = [WindowPresent (window_present e)] \<and>
    frame_outcome (main_loop e st) = Return (window_present e \<and> device_check e)"
proof -
  have reach: "window_render e \<and> fst (update_scene e st) \<and> fst (update_interface e) = None \<and>
      \<not> target_begin e"
    using assms unfolding main_loop_trace
    by (auto simp: in_tag present_check_def window_target_def split: if_splits)
  then have r: "window_render e" and s: "fst (update_scene e st)"
    and u: "fst (update_interface e) = None" and b: "\<not> target_begin e" by simp_all
  have ui: "DrawElements n \<notin> set (snd (update_interface e))"
    "CanvasDraw \<notin> set (snd (update_interface e))" "TargetEnd \<notin> set (snd (update_interface e))"
    using interface_events[of "DrawElements n" e] interface_events[of CanvasDraw e]
      interface_events[of TargetEnd e]
    by (auto simp: interface_event_def)
  have sc: "DrawElements n \<notin> set (snd (snd (update_scene e st)))"
    "CanvasDraw \<notin> set (snd (snd (update_scene e st)))"
    "TargetEnd \<notin> set (snd (snd (update_scene e st)))"
    using scene_events_no_draw[of n e st] by simp_all
  have 1: "phase_events PhaseWindowTarget (frame_trace (main_loop e st)) = [TargetBegin False]"
    using r s u b
    by (simp add: main_loop_trace phase_events_append phase_events_tag phase_events_present_check
        window_target_def)
  have 2: "phase_events PhasePresent (frame_trace (main_loop e st)) = [WindowPresent (window_present e)]"
    using r s u
    by (simp add: main_loop_trace phase_events_append phase_events_tag phase_events_present_check)
  have 3: "frame_outcome (main_loop e st) = Return (window_present e \<and> device_check e)"
    using r s u by (simp add: main_loop_outcome early_failure_iff)
  have tr: "set (map snd (frame_trace (main_loop e st))) =
      {WindowUpdate, WindowRender True} \<union> set (snd (snd (update_scene e st))) \<union>
      set dispatch_early \<union> set draw_deferred \<union> set dispatch_late \<union>
      set (snd (update_interface e)) \<union> {TargetBegin False} \<union>
      set (map snd (snd (present_check e)))"
    using r s u b by (auto simp: main_loop_trace map_snd_tag window_target_def)
  have 4: "DrawElements n \<notin> set (map snd (frame_trace (main_loop e st)))"
    "CanvasDraw \<notin> set (map snd (frame_trace (main_loop e st)))"
    "TargetEnd \<notin> set (map snd (frame_trace (main_loop e st)))"
    unfolding tr using ui sc
    by (auto simp: dispatch_early_def draw_deferred_def dispatch_late_def map_snd_present_check)
  from 1 2 3 4 show ?thesis by blast
qed

text \<open>The successful frame with a failing \<^verbatim>\<open>target.begin()\<close>.\<close>

theorem begin_failure_skips_drawing_witness:
  "(PhaseWindowTarget, TargetBegin False) \<in>
      set (frame_trace (main_loop (frame_ok\<lparr>target_begin := False\<rparr>) frame0)) \<and>
   phase_events PhaseWindowTarget (frame_trace (main_loop (frame_ok\<lparr>target_begin := False\<rparr>) frame0))
     = [TargetBegin False] \<and>
   CanvasDraw \<notin> set (map snd (frame_trace (main_loop (frame_ok\<lparr>target_begin := False\<rparr>) frame0))) \<and>
   phase_events PhasePresent (frame_trace (main_loop (frame_ok\<lparr>target_begin := False\<rparr>) frame0))
     = [WindowPresent True] \<and>
   frame_outcome (main_loop (frame_ok\<lparr>target_begin := False\<rparr>) frame0) = Return True"
proof -
  have d: "fst (update_interface (frame_ok\<lparr>target_begin := False\<rparr>)) = None"
    using interface_done_frame_ok[of "frame_ok\<lparr>target_begin := False\<rparr>"]
    by (simp add: frame_ok_def interface_done_def)
  have r: "window_render (frame_ok\<lparr>target_begin := False\<rparr>)"
    and s: "fst (update_scene (frame_ok\<lparr>target_begin := False\<rparr>) frame0)"
    and b: "\<not> target_begin (frame_ok\<lparr>target_begin := False\<rparr>)"
    and p: "window_present (frame_ok\<lparr>target_begin := False\<rparr>)"
    and c: "device_check (frame_ok\<lparr>target_begin := False\<rparr>)"
    by (simp_all add: update_scene_ok frame_ok_def)
  have m: "(PhaseWindowTarget, TargetBegin False) \<in>
      set (frame_trace (main_loop (frame_ok\<lparr>target_begin := False\<rparr>) frame0))"
    using d r s b by (simp add: main_loop_trace in_tag window_target_def)
  show ?thesis
    using m begin_failure_skips_drawing[OF m] p c by simp
qed


section \<open>The worker loop\<close>

text \<open>
  The loop returns exactly when some iteration finds the guard false, and then it has run
  the iterations before the first such one.
\<close>

lemma process_loop_exit:
  "worker_exits (obs i) \<Longrightarrow> process_loop obs i acc = Some (acc @ worker_guard (obs i))"
  by (subst process_loop.simps) (auto simp: worker_exits_def)

lemma process_loop_step:
  "\<not> worker_exits (obs i) \<Longrightarrow>
   process_loop obs i acc = process_loop obs (Suc i) (acc @ worker_iteration (obs i))"
  by (subst process_loop.simps) (auto simp: worker_exits_def)

lemma process_loop_run:
  "worker_exits (obs (i + n)) \<Longrightarrow> (\<forall>k<n. \<not> worker_exits (obs (i + k))) \<Longrightarrow>
   process_loop obs i acc =
     Some (acc @ concat (map (\<lambda>k. worker_iteration (obs k)) [i..<i + n]) @ worker_guard (obs (i + n)))"
proof (induction n arbitrary: i acc)
  case 0
  then show ?case by (simp add: process_loop_exit)
next
  case (Suc n)
  have ne: "\<not> worker_exits (obs i)" using Suc.prems(2) by (metis add.right_neutral zero_less_Suc)
  have e: "worker_exits (obs (Suc i + n))" using Suc.prems(1) by simp
  have a: "\<forall>k<n. \<not> worker_exits (obs (Suc i + k))"
  proof (intro allI impI)
    fix k assume "k < n"
    then have "Suc k < Suc n" by simp
    then have "\<not> worker_exits (obs (i + Suc k))" using Suc.prems(2) by blast
    then show "\<not> worker_exits (obs (Suc i + k))" by simp
  qed
  have u: "[i..<i + Suc n] = i # [Suc i..<Suc i + n]" by (simp add: upt_conv_Cons)
  show ?case
    unfolding process_loop_step[of obs i, OF ne] Suc.IH[OF e a] u by simp
qed

lemma process_loop_Some_exits:
  assumes a: "process_loop obs i acc = Some t"
  shows "\<exists>k. worker_exits (obs (i + k))"
proof (rule process_loop.raw_induct[where P = "\<lambda>obs i acc t. \<exists>k. worker_exits (obs (i + k))", OF _ a])
  fix loop :: "(nat \<Rightarrow> worker_obs) \<Rightarrow> nat \<Rightarrow> worker_event list \<Rightarrow> worker_event list option"
    and obs i acc t
  assume IH: "\<And>obs i acc t. loop obs i acc = Some t \<Longrightarrow> \<exists>k. worker_exits (obs (i + k))"
    and body: "(if manager_valid (obs i) \<and> \<not> is_terminated (obs i)
                then loop obs (Suc i) (acc @ worker_iteration (obs i))
                else Some (acc @ worker_guard (obs i))) = Some t"
  show "\<exists>k. worker_exits (obs (i + k))"
  proof (cases "worker_exits (obs i)")
    case True
    then have "worker_exits (obs (i + 0))" by simp
    then show ?thesis by blast
  next
    case False
    then have "loop obs (Suc i) (acc @ worker_iteration (obs i)) = Some t"
      using body by (auto simp: worker_exits_def split: if_splits)
    then obtain k where "worker_exits (obs (Suc i + k))" using IH by blast
    then have "worker_exits (obs (i + Suc k))" by simp
    then show ?thesis by blast
  qed
qed

lemma process_callback_run:
  assumes "worker_exits (obs n)" "\<forall>i<n. \<not> worker_exits (obs i)"
  shows "process_callback obs =
    Some (concat (map (\<lambda>i. worker_iteration (obs i)) [0..<n]) @ worker_guard (obs n) @
          [LogThreadDone])"
  using process_loop_run[of obs 0 n "[]"] assms by (simp add: process_callback_def)

lemma process_callback_returns:
  "process_callback obs \<noteq> None \<longleftrightarrow> (\<exists>i. worker_exits (obs i))"
proof
  assume "process_callback obs \<noteq> None"
  then obtain t where "process_loop obs 0 [] = Some t"
    by (auto simp: process_callback_def split: option.splits)
  then show "\<exists>i. worker_exits (obs i)" using process_loop_Some_exits[of obs 0 "[]" t] by simp
next
  assume "\<exists>i. worker_exits (obs i)"
  then obtain n where "worker_exits (obs n)" "\<forall>i<n. \<not> worker_exits (obs i)"
    using exists_least_iff[of "\<lambda>i. worker_exits (obs i)"] by blast
  then show "process_callback obs \<noteq> None" by (simp add: process_callback_run)
qed

lemma worker_iteration_literal:
  "\<not> worker_exits ob \<Longrightarrow>
   worker_iteration ob =
     [ManagerBool True, IsTerminated False, Process (process_ok ob)] @
     (if process_ok ob then [] else [Sleep 1000])"
  by (auto simp: worker_iteration_def worker_guard_def worker_exits_def)

lemma worker_guard_literal:
  "worker_exits ob \<Longrightarrow>
   worker_guard ob =
     (if manager_valid ob then [ManagerBool True, IsTerminated True] else [ManagerBool False])"
  by (auto simp: worker_guard_def worker_exits_def)

lemma worker_trace_literal:
  assumes "worker_exits (obs n)" "\<forall>i<n. \<not> worker_exits (obs i)"
  shows "process_callback obs =
    Some (concat (map (\<lambda>i. [ManagerBool True, IsTerminated False, Process (process_ok (obs i))] @
                          (if process_ok (obs i) then [] else [Sleep 1000])) [0..<n]) @
          (if manager_valid (obs n) then [ManagerBool True, IsTerminated True]
           else [ManagerBool False]) @
          [LogThreadDone])"
proof -
  have "map (\<lambda>i. worker_iteration (obs i)) [0..<n] =
        map (\<lambda>i. [ManagerBool True, IsTerminated False, Process (process_ok (obs i))] @
                  (if process_ok (obs i) then [] else [Sleep 1000])) [0..<n]"
    using assms(2) by (intro map_cong) (simp_all add: worker_iteration_literal)
  then have "concat (map (\<lambda>i. worker_iteration (obs i)) [0..<n]) =
        concat (map (\<lambda>i. [ManagerBool True, IsTerminated False, Process (process_ok (obs i))] @
                  (if process_ok (obs i) then [] else [Sleep 1000])) [0..<n])"
    by (rule arg_cong)
  then show ?thesis
    unfolding process_callback_run[OF assms] worker_guard_literal[OF assms(1)] by (simp only:)
qed

text \<open>
  C7 (as amended). The worker loop exits if and only if some iteration finds the
  \<^verbatim>\<open>scene_manager\<close> handle false or observes \<^verbatim>\<open>isTerminated()\<close> true. Every iteration before
  that one tests the handle, observes \<^verbatim>\<open>isTerminated()\<close> false, calls
  \<^verbatim>\<open>process(process_async)\<close> once, and calls \<^verbatim>\<open>Time.sleep(1000)\<close> exactly when \<^verbatim>\<open>process\<close>
  returned false; whatever \<^verbatim>\<open>process\<close> returns, the loop goes on to the next test of the
  guard. After the exit the one remaining call is the log of \<^verbatim>\<open>Thread Done\<close>.
\<close>

theorem worker_loop_exit:
  "(process_callback obs \<noteq> None \<longleftrightarrow>
      (\<exists>i. \<not> manager_valid (obs i) \<or> is_terminated (obs i))) \<and>
   ((\<not> manager_valid (obs n) \<or> is_terminated (obs n)) \<and>
    (\<forall>i<n. manager_valid (obs i) \<and> \<not> is_terminated (obs i)) \<longrightarrow>
      process_callback obs =
        Some (concat (map (\<lambda>i. [ManagerBool True, IsTerminated False,
                                Process (process_ok (obs i))] @
                               (if process_ok (obs i) then [] else [Sleep 1000])) [0..<n]) @
              (if manager_valid (obs n) then [ManagerBool True, IsTerminated True]
               else [ManagerBool False]) @
              [LogThreadDone]))"
proof -
  have 1: "process_callback obs \<noteq> None \<longleftrightarrow>
      (\<exists>i. \<not> manager_valid (obs i) \<or> is_terminated (obs i))"
    using process_callback_returns[of obs] by (simp add: worker_exits_def)
  have 2: "(\<not> manager_valid (obs n) \<or> is_terminated (obs n)) \<and>
    (\<forall>i<n. manager_valid (obs i) \<and> \<not> is_terminated (obs i)) \<longrightarrow>
      process_callback obs =
        Some (concat (map (\<lambda>i. [ManagerBool True, IsTerminated False,
                                Process (process_ok (obs i))] @
                               (if process_ok (obs i) then [] else [Sleep 1000])) [0..<n]) @
              (if manager_valid (obs n) then [ManagerBool True, IsTerminated True]
               else [ManagerBool False]) @
              [LogThreadDone])"
  proof
    assume a: "(\<not> manager_valid (obs n) \<or> is_terminated (obs n)) \<and>
      (\<forall>i<n. manager_valid (obs i) \<and> \<not> is_terminated (obs i))"
    then have "worker_exits (obs n)" "\<forall>i<n. \<not> worker_exits (obs i)"
      by (simp_all add: worker_exits_def)
    then show "process_callback obs =
        Some (concat (map (\<lambda>i. [ManagerBool True, IsTerminated False,
                                Process (process_ok (obs i))] @
                               (if process_ok (obs i) then [] else [Sleep 1000])) [0..<n]) @
              (if manager_valid (obs n) then [ManagerBool True, IsTerminated True]
               else [ManagerBool False]) @
              [LogThreadDone])"
      by (rule worker_trace_literal)
  qed
  from 1 2 show ?thesis by blast
qed

text \<open>
  A worker whose first \<^verbatim>\<open>process\<close> call succeeds, whose second fails, and which observes
  termination in its third test of the guard.
\<close>

theorem worker_loop_exit_witness:
  "process_callback
     (\<lambda>i. \<lparr>manager_valid = True, is_terminated = (2 \<le> i), process_ok = (i = 0)\<rparr>) =
   Some [ManagerBool True, IsTerminated False, Process True,
         ManagerBool True, IsTerminated False, Process False, Sleep 1000,
         ManagerBool True, IsTerminated True, LogThreadDone]"
proof -
  have u: "[0..<Suc (Suc 0)] = [0, Suc 0]" by (simp add: upt_rec)
  show ?thesis
    using worker_loop_exit[of
        "\<lambda>i. \<lparr>manager_valid = True, is_terminated = (2 \<le> i), process_ok = (i = 0)\<rparr>"
        "Suc (Suc 0)"]
    by (simp add: u less_Suc_eq)
qed

text \<open>
  C7 as stated fails: when the \<^verbatim>\<open>scene_manager\<close> handle tests false the loop exits although
  \<^verbatim>\<open>isTerminated()\<close> was never observed true; it is not even called.
\<close>

theorem worker_exit_without_termination:
  "process_callback
     (\<lambda>i. \<lparr>manager_valid = False, is_terminated = False, process_ok = True\<rparr>) =
   Some [ManagerBool False, LogThreadDone]"
  by (simp add: process_callback_def process_loop_exit worker_exits_def worker_guard_def)

lemma worker_quiet:
  assumes "process_callback obs = Some t"
  shows "Process ok \<notin> set (dropWhile (\<lambda>ev. ev \<noteq> IsTerminated True) t)"
proof -
  from assms have "\<exists>i. worker_exits (obs i)"
    using process_callback_returns[of obs] by simp
  then obtain n where n: "worker_exits (obs n)" "\<forall>i<n. \<not> worker_exits (obs i)"
    using exists_least_iff[of "\<lambda>i. worker_exits (obs i)"] by blast
  define its where "its = concat (map (\<lambda>i. [ManagerBool True, IsTerminated False,
      Process (process_ok (obs i))] @ (if process_ok (obs i) then [] else [Sleep 1000])) [0..<n])"
  define ex where "ex = (if manager_valid (obs n) then [ManagerBool True, IsTerminated True]
      else [ManagerBool False]) @ [LogThreadDone]"
  have t: "t = its @ ex"
    using worker_trace_literal[OF n] assms by (simp add: its_def ex_def)
  have "\<And>ev. ev \<in> set its \<Longrightarrow> ev \<noteq> IsTerminated True"
    by (auto simp: its_def split: if_splits)
  then have "dropWhile (\<lambda>ev. ev \<noteq> IsTerminated True) t = dropWhile (\<lambda>ev. ev \<noteq> IsTerminated True) ex"
    unfolding t by (rule dropWhile_append2)
  then show ?thesis by (simp add: ex_def)
qed

section \<open>Shutdown\<close>

text \<open>
  C5. After \<^verbatim>\<open>window.run\<close> has returned, \<^verbatim>\<open>main\<close> calls, in this order and with nothing
  between them: \<^verbatim>\<open>scene_manager.terminate()\<close>, \<^verbatim>\<open>window.finish()\<close>, \<^verbatim>\<open>scene.clear()\<close>, one
  \<^verbatim>\<open>scene_manager.update\<close>, \<^verbatim>\<open>window.finish()\<close> again, \<^verbatim>\<open>thread.join()\<close>, and the log of
  \<^verbatim>\<open>Done\<close>; it returns 0. So \<^verbatim>\<open>terminate\<close> is called before \<^verbatim>\<open>join\<close>. In every run of the
  worker that returns, no call of \<^verbatim>\<open>process\<close> follows an \<^verbatim>\<open>isTerminated()\<close> that returned
  true.
\<close>

theorem shutdown_order:
  "shutdown b =
     (0, [Terminate, WindowFinish, SceneClear, ManagerUpdate b, WindowFinish, ThreadJoin,
          LogDone]) \<and>
   Terminate \<in> set (takeWhile (\<lambda>ev. ev \<noteq> ThreadJoin) (snd (shutdown b))) \<and>
   (process_callback obs = Some t \<longrightarrow>
      (\<forall>ok. Process ok \<notin> set (dropWhile (\<lambda>ev. ev \<noteq> IsTerminated True) t)))"
  using worker_quiet[of obs t] by (simp add: shutdown_def)

text \<open>
  A worker whose \<^verbatim>\<open>process\<close> call fails once and which then observes termination.
\<close>

theorem shutdown_order_witness:
  "process_callback
     (\<lambda>i. \<lparr>manager_valid = True, is_terminated = (1 \<le> i), process_ok = False\<rparr>) =
     Some [ManagerBool True, IsTerminated False, Process False, Sleep 1000,
           ManagerBool True, IsTerminated True, LogThreadDone] \<and>
   (\<forall>ok. Process ok \<notin> set (dropWhile (\<lambda>ev. ev \<noteq> IsTerminated True)
      [ManagerBool True, IsTerminated False, Process False, Sleep 1000,
       ManagerBool True, IsTerminated True, LogThreadDone]))"
proof -
  have p: "process_callback
     (\<lambda>i. \<lparr>manager_valid = True, is_terminated = (1 \<le> i), process_ok = False\<rparr>) =
     Some [ManagerBool True, IsTerminated False, Process False, Sleep 1000,
           ManagerBool True, IsTerminated True, LogThreadDone]"
    using worker_trace_literal[of
        "\<lambda>i. \<lparr>manager_valid = True, is_terminated = (1 \<le> i), process_ok = False\<rparr>" "Suc 0"]
    by (simp add: worker_exits_def)
  show ?thesis
    using p shutdown_order[of True
        "\<lambda>i. \<lparr>manager_valid = True, is_terminated = (1 \<le> i), process_ok = False\<rparr>"
        "[ManagerBool True, IsTerminated False, Process False, Sleep 1000,
          ManagerBool True, IsTerminated True, LogThreadDone]"]
    by blast
qed


section \<open>The grid of \<^verbatim>\<open>create_mesh\<close>\<close>

lemma zip_upt_snoc:
  "zip [0..<Suc (length ps)] (ps @ [p]) = zip [0..<length ps] ps @ [(length ps, p)]"
  by simp

lemma foldl_set_vertex:
  "foldl set_vertex (cs, k) ps =
    (cs @ map (\<lambda>(n, (j, i)). (k + n, i, j)) (zip [0..<length ps] ps), k + length ps)"
proof (induction ps rule: rev_induct)
  case Nil
  then show ?case by simp
next
  case (snoc p ps)
  obtain j i where p: "p = (j, i)" by (cases p)
  show ?case
    unfolding foldl_append snoc.IH length_append_singleton zip_upt_snoc
    by (simp add: set_vertex_def p)
qed

lemma foldl_set_quad:
  "foldl (set_quad sx) (cs, k) ps =
    (cs @ map (\<lambda>(n, (j, i)). (k + 4 * n, (sx + 1) * j + i, (sx + 1) * j + i + 1,
                               (sx + 1) * j + i + sx + 2, (sx + 1) * j + i + sx + 1))
            (zip [0..<length ps] ps),
     k + 4 * length ps)"
proof (induction ps rule: rev_induct)
  case Nil
  then show ?case by simp
next
  case (snoc p ps)
  obtain j i where p: "p = (j, i)" by (cases p)
  show ?case
    unfolding foldl_append snoc.IH length_append_singleton zip_upt_snoc
    by (simp add: set_quad_def p Let_def)
qed

lemma quad_bound:
  fixes sx sy i j :: nat
  assumes "j < sy" "i < sx"
  shows "(sx + 1) * j + i + sx + 2 < (sx + 1) * (sy + 1)"
proof -
  have "Suc j \<le> sy" using assms(1) by simp
  then have "(sx + 1) * Suc j \<le> (sx + 1) * sy" by (rule mult_le_mono2)
  then show ?thesis using assms(2) by (simp add: algebra_simps)
qed

text \<open>
  C9 (as amended). For every \<^verbatim>\<open>steps\<close> with \<open>steps.x \<ge> 1\<close> and \<open>steps.y \<ge> 1\<close> and every
  \<^verbatim>\<open>radius\<close> with \<open>radius.y \<noteq> 0\<close>, \<^verbatim>\<open>create_mesh\<close> returns; the attributes are created with
  \<open>(steps.x + 1) * (steps.y + 1)\<close> vertices and every slot below that number is set once,
  in increasing order, row by row; the index buffer is created with \<open>steps.x * steps.y * 4\<close>
  indices and the calls of \<^verbatim>\<open>indices.set\<close> fill the positions \<open>0, 4, 8, \<dots>\<close> below that number
  with the four corners of each grid cell; every index written is below the number of
  vertices; and the index format is \<^verbatim>\<open>FormatRu16\<close> exactly when the number of vertices is
  below \<^verbatim>\<open>Maxu16\<close>.
\<close>

theorem create_mesh_counts:
  assumes "1 \<le> sx" and "1 \<le> sy" and "snd radius \<noteq> 0"
  shows "\<exists>m. create_mesh Maxu16 (sx, sy) radius texcoord = Inr m \<and>
    num_vertices m = (sx + 1) * (sy + 1) \<and>
    vertex_sets m =
      map (\<lambda>(n, (j, i)). (n, i, j))
        (zip [0..<(sx + 1) * (sy + 1)] (List.product [0..<sy + 1] [0..<sx + 1])) \<and>
    map fst (vertex_sets m) = [0..<(sx + 1) * (sy + 1)] \<and>
    num_indices m = sx * sy * 4 \<and>
    index_sets m =
      map (\<lambda>(n, (j, i)). (4 * n, (sx + 1) * j + i, (sx + 1) * j + i + 1,
                            (sx + 1) * j + i + sx + 2, (sx + 1) * j + i + sx + 1))
        (zip [0..<sx * sy] (List.product [0..<sy] [0..<sx])) \<and>
    map fst (index_sets m) = map (\<lambda>n. 4 * n) [0..<sx * sy] \<and>
    (\<forall>q \<in> set (index_sets m).
       case q of (index, a, b, c, d) \<Rightarrow>
         index + 4 \<le> num_indices m \<and> a < num_vertices m \<and> b < num_vertices m \<and>
         c < num_vertices m \<and> d < num_vertices m) \<and>
    (indices_format m = FormatRu16 \<longleftrightarrow> int (num_vertices m) < Maxu16)"
proof -
  define vs where "vs = map (\<lambda>(n, (j, i)). (n, i, j))
        (zip [0..<(sx + 1) * (sy + 1)] (List.product [0..<sy + 1] [0..<sx + 1]))"
  define qs where "qs = map (\<lambda>(n, (j, i)). (4 * n, (sx + 1) * j + i, (sx + 1) * j + i + 1,
                            (sx + 1) * j + i + sx + 2, (sx + 1) * j + i + sx + 1))
        (zip [0..<sx * sy] (List.product [0..<sy] [0..<sx]))"
  define m where "m = \<lparr>num_vertices = (sx + 1) * (sy + 1), vertex_sets = vs,
      indices_format = (if int ((sx + 1) * (sy + 1)) < Maxu16 then FormatRu16 else FormatRu32),
      num_indices = sx * sy * 4, index_sets = qs\<rparr>"
  have lv: "length (List.product [0..<sy + 1] [0..<sx + 1]) = (sx + 1) * (sy + 1)"
    by (simp add: length_product)
  have lq: "length (List.product [0..<sy] [0..<sx]) = sx * sy"
    by (simp add: length_product mult.commute)
  have fv: "fst (foldl set_vertex ([], 0) (List.product [0..<sy + 1] [0..<sx + 1])) = vs"
    unfolding foldl_set_vertex lv vs_def by simp
  have fq: "fst (foldl (set_quad sx) ([], 0) (List.product [0..<sy] [0..<sx])) = qs"
    unfolding foldl_set_quad lq qs_def by simp
  have cm: "create_mesh Maxu16 (sx, sy) radius texcoord = Inr m"
    using assms(3) unfolding create_mesh_def prod.case Let_def fv fq m_def by simp
  have mv: "map fst vs = [0..<(sx + 1) * (sy + 1)]"
  proof -
    have "map fst vs = map fst (zip [0..<(sx + 1) * (sy + 1)] (List.product [0..<sy + 1] [0..<sx + 1]))"
      unfolding vs_def by (simp add: case_prod_unfold comp_def)
    also have "\<dots> = [0..<(sx + 1) * (sy + 1)]"
      using lv by (simp add: map_fst_zip)
    finally show ?thesis .
  qed
  have mq: "map fst qs = map (\<lambda>n. 4 * n) [0..<sx * sy]"
  proof -
    have z: "map fst (zip [0..<sx * sy] (List.product [0..<sy] [0..<sx])) = [0..<sx * sy]"
      using lq by (simp add: map_fst_zip)
    have "map fst qs = map (\<lambda>n. 4 * n) (map fst (zip [0..<sx * sy] (List.product [0..<sy] [0..<sx])))"
      unfolding qs_def map_map by (rule map_cong) auto
    then show ?thesis unfolding z .
  qed
  have bd: "\<forall>q \<in> set qs.
       case q of (index, a, b, c, d) \<Rightarrow>
         index + 4 \<le> sx * sy * 4 \<and> a < (sx + 1) * (sy + 1) \<and> b < (sx + 1) * (sy + 1) \<and>
         c < (sx + 1) * (sy + 1) \<and> d < (sx + 1) * (sy + 1)"
  proof
    fix q assume "q \<in> set qs"
    then obtain n j i where q: "q = (4 * n, (sx + 1) * j + i, (sx + 1) * j + i + 1,
                            (sx + 1) * j + i + sx + 2, (sx + 1) * j + i + sx + 1)"
      and z: "(n, (j, i)) \<in> set (zip [0..<sx * sy] (List.product [0..<sy] [0..<sx]))"
      unfolding qs_def by auto
    from z have n: "n < sx * sy" using set_zip_leftD by fastforce
    from z have "(j, i) \<in> set (List.product [0..<sy] [0..<sx])" by (rule set_zip_rightD)
    then have ji: "j < sy" "i < sx" by simp_all
    have b: "(sx + 1) * j + i + sx + 2 < (sx + 1) * (sy + 1)" using ji by (rule quad_bound)
    show "case q of (index, a, b, c, d) \<Rightarrow>
         index + 4 \<le> sx * sy * 4 \<and> a < (sx + 1) * (sy + 1) \<and> b < (sx + 1) * (sy + 1) \<and>
         c < (sx + 1) * (sy + 1) \<and> d < (sx + 1) * (sy + 1)"
      unfolding q using n b by simp
  qed
  show ?thesis
    apply (rule exI[of _ m])
    using cm mv mq bd unfolding m_def vs_def[symmetric] qs_def[symmetric] by simp
qed

text \<open>The grid of one cell: four vertices and one quadrilateral.\<close>

theorem create_mesh_counts_witness:
  "\<exists>m. create_mesh 65535 (Suc 0, Suc 0) (8, 2) 2 = Inr m \<and> num_vertices m = 4 \<and>
       map fst (vertex_sets m) = [0, 1, 2, 3] \<and> num_indices m = 4 \<and>
       index_sets m = [(0, 0, 1, 3, 2)] \<and> indices_format m = FormatRu16"
proof -
  have "1 \<le> Suc 0" and "snd (8::real, 2::real) \<noteq> 0" by simp_all
  from create_mesh_counts[OF this(1) this(1) this(2), of 65535 2]
  obtain m where c: "create_mesh 65535 (Suc 0, Suc 0) (8, 2) 2 = Inr m"
    and v: "num_vertices m = (Suc 0 + 1) * (Suc 0 + 1)"
    and s: "map fst (vertex_sets m) = [0..<(Suc 0 + 1) * (Suc 0 + 1)]"
    and n: "num_indices m = Suc 0 * Suc 0 * 4"
    and q: "index_sets m =
      map (\<lambda>(n, (j, i)). (4 * n, (Suc 0 + 1) * j + i, (Suc 0 + 1) * j + i + 1,
                            (Suc 0 + 1) * j + i + Suc 0 + 2, (Suc 0 + 1) * j + i + Suc 0 + 1))
        (zip [0..<Suc 0 * Suc 0] (List.product [0..<Suc 0] [0..<Suc 0]))"
    and f: "indices_format m = FormatRu16 \<longleftrightarrow> int (num_vertices m) < 65535"
    by blast
  have "[0..<(Suc 0 + 1) * (Suc 0 + 1)] = [0, 1, 2, 3]" by (simp add: upt_rec)
  then have s': "map fst (vertex_sets m) = [0, 1, 2, 3]" using s by simp
  have q': "index_sets m = [(0, 0, 1, 3, 2)]" unfolding q by simp
  have v': "num_vertices m = 4" using v by simp
  have f': "indices_format m = FormatRu16" using f v' by simp
  from c v' s' n q' f' show ?thesis by auto
qed

text \<open>
  C9 as stated, for every call with such \<^verbatim>\<open>steps\<close>, fails: with \<open>radius.y = 0.0\<close> the
  division \<^verbatim>\<open>radius.x / radius.y\<close> raises and no mesh is produced.
\<close>

theorem create_mesh_zero_radius:
  "create_mesh 65535 (1, 1) (1, 0) 1 = Inl ZeroDivisionError"
  by (simp add: create_mesh_def)


section \<open>The pixels of \<^verbatim>\<open>create_image\<close>\<close>













end
